theory Spec2Isabelle
  imports Main "HOL-Library.Sublist"
begin

section \<open>Paths and strings\<close>

text \<open>
  The resolver builds every location with Python's \<^verbatim>\<open>os.path.join\<close> (POSIX flavour).
  One step of it: a component that starts with the separator replaces what was joined so
  far; otherwise the component is appended, with a separator unless the path so far is
  empty or already ends in one.
\<close>

definition join2 :: "string \<Rightarrow> string \<Rightarrow> string" where
  "join2 path b =
     (if b \<noteq> [] \<and> hd b = CHR ''/'' then b
      else if path = [] \<or> last path = CHR ''/'' then path @ b
      else path @ ''/'' @ b)"

definition path_join :: "string \<Rightarrow> string list \<Rightarrow> string" where
  "path_join a p = foldl join2 a p"

text \<open>\<^verbatim>\<open>os.path.dirname\<close>: everything up to the last separator, with trailing separators
  stripped unless the head consists of separators only.\<close>

definition rstrip_sep :: "string \<Rightarrow> string" where
  "rstrip_sep s = rev (dropWhile (\<lambda>c. c = CHR ''/'') (rev s))"

definition dirname :: "string \<Rightarrow> string" where
  "dirname p =
     (let head = rev (dropWhile (\<lambda>c. c \<noteq> CHR ''/'') (rev p)) in
      if head \<noteq> [] \<and> head \<noteq> replicate (length head) (CHR ''/'') then rstrip_sep head
      else head)"

text \<open>Python's \<^verbatim>\<open>str\<close> on an (unbounded) integer: decimal digits, with a leading minus
  sign for a negative number.\<close>

definition digit_char :: "nat \<Rightarrow> char" where
  "digit_char d = char_of (48 + d)"

fun digits10 :: "nat \<Rightarrow> string" where
  "digits10 n = (if n < 10 then [digit_char n] else digits10 (n div 10) @ [digit_char (n mod 10)])"

declare digits10.simps [simp del]

definition str_int :: "int \<Rightarrow> string" where
  "str_int i = (if i < 0 then CHR ''-'' # digits10 (nat (- i)) else digits10 (nat i))"

section \<open>Artifacts and the node context\<close>

text \<open>
  An artifact object carries its class, its uri and its name. The only thing the code asks
  of the class is whether it is a \<^verbatim>\<open>ValueArtifact\<close>.
\<close>

datatype artifact_class = ValueArtifact | Artifact

record artifact =
  cls :: artifact_class
  uri :: string
  name :: string

text \<open>
  Modelled from the spec: \<^verbatim>\<open>artifact_utils.deserialize_artifact\<close> is not part of the
  sources at hand. An output specification's artifact type is represented by the class it
  deserialises to, and deserialisation yields a fresh artifact of that class whose uri and
  name are still empty.
\<close>

definition deserialize_artifact :: "artifact_class \<Rightarrow> artifact" where
  "deserialize_artifact c = \<lparr>cls = c, uri = [], name = []\<rparr>"

definition isinstance_ValueArtifact :: "artifact \<Rightarrow> bool" where
  "isinstance_ValueArtifact a = (cls a = ValueArtifact)"

text \<open>The node's declared outputs are the items of a map from output key to artifact type,
  in iteration order.\<close>

record PipelineNode =
  node_info_id :: string
  outputs :: "(string \<times> artifact_class) list"

record OutputsResolver =
  pipeline_node :: PipelineNode
  pipeline_info_id :: string
  pipeline_root :: string
  pipeline_run_id :: string
  node_dir :: string

text \<open>The constructor \<^verbatim>\<open>OutputsResolver.__init__\<close>.\<close>

definition init_OutputsResolver :: "PipelineNode \<Rightarrow> string \<Rightarrow> string \<Rightarrow> string \<Rightarrow> OutputsResolver" where
  "init_OutputsResolver node info_id root run_id =
     \<lparr>pipeline_node = node, pipeline_info_id = info_id, pipeline_root = root,
      pipeline_run_id = run_id, node_dir = path_join root [node_info_id node]\<rparr>"

definition EXECUTION_PREFIX :: string where "EXECUTION_PREFIX = ''execution_''"
definition STATEFUL_WORKING_DIR :: string where "STATEFUL_WORKING_DIR = ''stateful_working_dir''"
definition EXECUTION_OUTPUT_FILE :: string where "EXECUTION_OUTPUT_FILE = ''executor_output.pb''"
definition VALUE_ARTIFACT_FILE_NAME :: string where "VALUE_ARTIFACT_FILE_NAME = ''value''"

section \<open>The world: a filesystem, a working directory and the debug log\<close>

text \<open>
  The filesystem behind \<^verbatim>\<open>tf.io.gfile\<close> is a tree without links. A node is addressed by
  the list of names that leads to it from the root, and it is either absent, a file with
  its contents, or a directory.

  A uri names a node as follows. A uri that starts with the separator is read from the
  root, any other from the working directory of the process. Empty segments and the
  segment \<^verbatim>\<open>.\<close> stay where they are, the segment \<^verbatim>\<open>..\<close> steps to the parent (the root is
  its own parent), and every other segment steps to the child of that name. The empty uri
  names nothing.
\<close>

datatype node = File string | Dir

type_synonym filesystem = "string list \<Rightarrow> node option"

fun split_acc :: "string \<Rightarrow> string \<Rightarrow> string list" where
  "split_acc cur [] = (if cur = [] then [] else [cur])"
| "split_acc cur (c # cs) =
     (if c = CHR ''/'' then (if cur = [] then split_acc [] cs else cur # split_acc [] cs)
      else split_acc (cur @ [c]) cs)"

fun normalise :: "string list \<Rightarrow> string list \<Rightarrow> string list" where
  "normalise base [] = base"
| "normalise base (s # ss) =
     (if s = [] \<or> s = ''.'' then normalise base ss
      else if s = ''..'' then normalise (butlast base) ss
      else normalise (base @ [s]) ss)"

definition split_path :: "string list \<Rightarrow> string \<Rightarrow> string list" where
  "split_path wd p =
     normalise (if p \<noteq> [] \<and> hd p = CHR ''/'' then [] else wd) (split_acc [] p)"

definition resolve :: "string list \<Rightarrow> string \<Rightarrow> string list option" where
  "resolve wd p = (if p = [] then None else Some (split_path wd p))"

text \<open>A uri whose last segment is a dot segment, and a uri that ends with the separator:
  such a uri can only name a directory.\<close>

definition dot_last :: "string \<Rightarrow> bool" where
  "dot_last p =
     (let segs = split_acc [] p in segs \<noteq> [] \<and> (last segs = ''.'' \<or> last segs = ''..''))"

definition slash_last :: "string \<Rightarrow> bool" where
  "slash_last p = (p \<noteq> [] \<and> last p = CHR ''/'')"

datatype error = OpError | KeyError | Exception string

record world =
  files :: filesystem
  cwd :: "string list"
  debug_log :: "string list"

text \<open>Making a directory with its ancestors: every missing node on the way is made a
  directory; it succeeds when the directory is already there and fails when the node or
  one of its ancestors is a file.\<close>

definition is_file :: "node option \<Rightarrow> bool" where
  "is_file x = (case x of Some (File _) \<Rightarrow> True | _ \<Rightarrow> False)"

definition makedirs :: "filesystem \<Rightarrow> string list \<Rightarrow> error + filesystem" where
  "makedirs fs p =
     (if \<exists>q \<in> set (prefixes p). is_file (fs q) then Inl OpError
      else Inr (\<lambda>q. if prefix q p then Some Dir else fs q))"

text \<open>Opening a file for writing, writing the empty string and closing it: fails on a
  directory and when the parent directory is missing, otherwise the file exists and is
  empty afterwards, whatever it held before.\<close>

definition write_empty :: "filesystem \<Rightarrow> string list \<Rightarrow> error + filesystem" where
  "write_empty fs p =
     (if p = [] \<or> fs p = Some Dir \<or> fs (butlast p) \<noteq> Some Dir then Inl OpError
      else Inr (fs(p \<mapsto> File [])))"

definition isdir :: "filesystem \<Rightarrow> string list \<Rightarrow> bool" where
  "isdir fs p = (fs p = Some Dir)"

text \<open>Removing one file: fails when the node is not a file.\<close>

definition remove_file :: "filesystem \<Rightarrow> string list \<Rightarrow> error + filesystem" where
  "remove_file fs p =
     (case fs p of Some (File _) \<Rightarrow> Inr (fs(p := None)) | _ \<Rightarrow> Inl OpError)"

text \<open>
  The calls of \<^verbatim>\<open>tf.io.gfile\<close>, on uris. \<^verbatim>\<open>makedirs\<close> of the empty uri has nothing to
  make and returns; every other call fails on a uri that names nothing. A file cannot be
  written or removed through a uri that can only name a directory.

  \<^verbatim>\<open>rmtree\<close> fails when there is nothing at the uri. Otherwise it removes everything
  below the node and then the node itself; that last step is refused for the root and
  for a uri whose last segment is a dot segment, in which case the call raises after the
  contents are gone.
\<close>

definition gfile_makedirs :: "string list \<Rightarrow> filesystem \<Rightarrow> string \<Rightarrow> error + filesystem" where
  "gfile_makedirs wd fs p =
     (case resolve wd p of None \<Rightarrow> Inr fs | Some q \<Rightarrow> makedirs fs q)"

definition gfile_write_empty :: "string list \<Rightarrow> filesystem \<Rightarrow> string \<Rightarrow> error + filesystem" where
  "gfile_write_empty wd fs p =
     (case resolve wd p of
        None \<Rightarrow> Inl OpError
      | Some q \<Rightarrow> if slash_last p \<or> dot_last p then Inl OpError else write_empty fs q)"

definition gfile_isdir :: "string list \<Rightarrow> filesystem \<Rightarrow> string \<Rightarrow> bool" where
  "gfile_isdir wd fs p = (case resolve wd p of None \<Rightarrow> False | Some q \<Rightarrow> isdir fs q)"

definition gfile_rmtree ::
  "string list \<Rightarrow> filesystem \<Rightarrow> string \<Rightarrow> error option \<times> filesystem" where
  "gfile_rmtree wd fs p =
     (case resolve wd p of
        None \<Rightarrow> (Some OpError, fs)
      | Some q \<Rightarrow>
          (case fs q of
             None \<Rightarrow> (Some OpError, fs)
           | Some _ \<Rightarrow>
               if q = [] \<or> dot_last p
               then (Some OpError, \<lambda>x. if strict_prefix q x then None else fs x)
               else (None, \<lambda>x. if prefix q x then None else fs x)))"

definition gfile_remove :: "string list \<Rightarrow> filesystem \<Rightarrow> string \<Rightarrow> error + filesystem" where
  "gfile_remove wd fs p =
     (case resolve wd p of
        None \<Rightarrow> Inl OpError
      | Some q \<Rightarrow> if slash_last p \<or> dot_last p then Inl OpError else remove_file fs q)"

section \<open>The outputs resolver\<close>

text \<open>The result dictionary is a \<^verbatim>\<open>defaultdict(list)\<close>: appending under a key that is not
  there yet starts a new list at the end of the dictionary.\<close>

fun dd_append :: "(string \<times> 'a list) list \<Rightarrow> string \<Rightarrow> 'a \<Rightarrow> (string \<times> 'a list) list" where
  "dd_append [] k a = [(k, [a])]"
| "dd_append ((k', as) # d) k a =
     (if k' = k then (k', as @ [a]) # d else (k', as) # dd_append d k a)"

definition make_artifact :: "OutputsResolver \<Rightarrow> int \<Rightarrow> string \<Rightarrow> artifact_class \<Rightarrow> artifact" where
  "make_artifact r execution_id key output_spec =
     (let a0 = deserialize_artifact output_spec;
          a1 = a0\<lparr>uri := path_join (node_dir r) [EXECUTION_PREFIX @ str_int execution_id, key]\<rparr>;
          a2 = (if isinstance_ValueArtifact a1
                then a1\<lparr>uri := path_join (uri a1) [VALUE_ARTIFACT_FILE_NAME]\<rparr> else a1)
      in a2\<lparr>name := pipeline_info_id r @ '':'' @ pipeline_run_id r @ '':'' @
                     node_info_id (pipeline_node r) @ '':'' @ key @ '':'' @ str_int 0\<rparr>)"

fun generate_loop ::
  "OutputsResolver \<Rightarrow> int \<Rightarrow> (string \<times> artifact_class) list \<Rightarrow>
   (string \<times> artifact list) list \<Rightarrow> world \<Rightarrow> (string \<times> artifact list) list \<times> world" where
  "generate_loop r execution_id [] output_artifacts w = (output_artifacts, w)"
| "generate_loop r execution_id ((key, output_spec) # rest) output_artifacts w =
     (let a = make_artifact r execution_id key output_spec in
      generate_loop r execution_id rest (dd_append output_artifacts key a)
        (w\<lparr>debug_log := debug_log w @
             [''Creating output artifact uri '' @ uri a @ '' as directory'']\<rparr>))"

definition generate_output_artifacts ::
  "OutputsResolver \<Rightarrow> int \<Rightarrow> world \<Rightarrow> (string \<times> artifact list) list \<times> world" where
  "generate_output_artifacts r execution_id w =
     generate_loop r execution_id (outputs (pipeline_node r)) [] w"

definition get_executor_output_uri :: "OutputsResolver \<Rightarrow> int \<Rightarrow> world \<Rightarrow> error + string \<times> world" where
  "get_executor_output_uri r execution_id w =
     (let execution_dir = path_join (node_dir r) [EXECUTION_PREFIX @ str_int execution_id] in
      case gfile_makedirs (cwd w) (files w) execution_dir of
        Inl e \<Rightarrow> Inl e
      | Inr fs' \<Rightarrow> Inr (path_join execution_dir [EXECUTION_OUTPUT_FILE], w\<lparr>files := fs'\<rparr>))"

definition get_stateful_working_directory :: "OutputsResolver \<Rightarrow> world \<Rightarrow> error + string \<times> world" where
  "get_stateful_working_directory r w =
     (let stateful_working_dir =
            path_join (node_dir r) [pipeline_run_id r, STATEFUL_WORKING_DIR] in
      case gfile_makedirs (cwd w) (files w) stateful_working_dir of
        Inl e \<Rightarrow> Inl e
      | Inr fs' \<Rightarrow> Inr (stateful_working_dir, w\<lparr>files := fs'\<rparr>))"

section \<open>Creating and removing the output storage\<close>

text \<open>
  Both operations loop over the dictionary and over each list in it, and an exception of a
  filesystem call ends the loops where it is raised. The result is the exception raised
  (\<open>None\<close> when the call returns) together with the filesystem as the call leaves it.
  The first argument is the working directory of the process.
\<close>

definition make_one :: "string list \<Rightarrow> filesystem \<Rightarrow> artifact \<Rightarrow> error option \<times> filesystem" where
  "make_one wd fs a =
     (if isinstance_ValueArtifact a then
        (case gfile_makedirs wd fs (dirname (uri a)) of
           Inl e \<Rightarrow> (Some e, fs)
         | Inr fs' \<Rightarrow>
             (case gfile_write_empty wd fs' (uri a) of
                Inl e \<Rightarrow> (Some e, fs')
              | Inr fs'' \<Rightarrow> (None, fs'')))
      else
        (case gfile_makedirs wd fs (uri a) of
           Inl e \<Rightarrow> (Some e, fs)
         | Inr fs' \<Rightarrow> (None, fs')))"

fun make_list :: "string list \<Rightarrow> filesystem \<Rightarrow> artifact list \<Rightarrow> error option \<times> filesystem" where
  "make_list wd fs [] = (None, fs)"
| "make_list wd fs (a # as) =
     (case make_one wd fs a of
        (Some e, fs') \<Rightarrow> (Some e, fs')
      | (None, fs') \<Rightarrow> make_list wd fs' as)"

fun make_output_dirs ::
  "string list \<Rightarrow> (string \<times> artifact list) list \<Rightarrow> filesystem \<Rightarrow> error option \<times> filesystem" where
  "make_output_dirs wd [] fs = (None, fs)"
| "make_output_dirs wd ((k, artifact_list) # d) fs =
     (case make_list wd fs artifact_list of
        (Some e, fs') \<Rightarrow> (Some e, fs')
      | (None, fs') \<Rightarrow> make_output_dirs wd d fs')"

definition remove_one :: "string list \<Rightarrow> filesystem \<Rightarrow> artifact \<Rightarrow> error option \<times> filesystem" where
  "remove_one wd fs a =
     (if gfile_isdir wd fs (uri a) then gfile_rmtree wd fs (uri a)
      else
        (case gfile_remove wd fs (uri a) of
           Inl e \<Rightarrow> (Some e, fs)
         | Inr fs' \<Rightarrow> (None, fs')))"



section \<open>The filesystem registry\<close>

text \<open>A filesystem implementation is a class; the registry only reads the schemes it
  declares. The class name stands for the identity of the class object.\<close>

record filesystem_cls =
  cls_name :: string
  SUPPORTED_SCHEMES :: "string list"

record FilesystemRegistry =
  preferred_filesystem_by_scheme :: "string \<rightharpoonup> filesystem_cls"
  filesystem_priority :: "filesystem_cls \<rightharpoonup> int"

definition init_FilesystemRegistry :: FilesystemRegistry where
  "init_FilesystemRegistry =
     \<lparr>preferred_filesystem_by_scheme = Map.empty, filesystem_priority = Map.empty\<rparr>"

text \<open>The loop of \<^verbatim>\<open>register\<close> over the schemes of the class. Looking up the priority of
  the currently preferred class raises \<^verbatim>\<open>KeyError\<close> when it has none.\<close>

fun register_schemes ::
  "FilesystemRegistry \<Rightarrow> filesystem_cls \<Rightarrow> int \<Rightarrow> string list \<Rightarrow> error + FilesystemRegistry" where
  "register_schemes reg c priority [] = Inr reg"
| "register_schemes reg c priority (scheme # rest) =
     (case preferred_filesystem_by_scheme reg scheme of
        None \<Rightarrow>
          register_schemes
            (reg\<lparr>preferred_filesystem_by_scheme :=
                   (preferred_filesystem_by_scheme reg)(scheme \<mapsto> c)\<rparr>) c priority rest
      | Some current_preferred \<Rightarrow>
          (case filesystem_priority reg current_preferred of
             None \<Rightarrow> Inl KeyError
           | Some current_priority \<Rightarrow>
               if priority < current_priority
               then register_schemes
                      (reg\<lparr>preferred_filesystem_by_scheme :=
                             (preferred_filesystem_by_scheme reg)(scheme \<mapsto> c)\<rparr>) c priority rest
               else register_schemes reg c priority rest))"

definition register :: "FilesystemRegistry \<Rightarrow> filesystem_cls \<Rightarrow> int \<Rightarrow> error + FilesystemRegistry" where
  "register reg c priority =
     register_schemes (reg\<lparr>filesystem_priority := (filesystem_priority reg)(c \<mapsto> priority)\<rparr>)
       c priority (SUPPORTED_SCHEMES c)"

text \<open>A sequence of \<^verbatim>\<open>register\<close> calls, in order.\<close>

fun register_all ::
  "FilesystemRegistry \<Rightarrow> (filesystem_cls \<times> int) list \<Rightarrow> error + FilesystemRegistry" where
  "register_all reg [] = Inr reg"
| "register_all reg ((c, priority) # calls) =
     (case register reg c priority of Inl e \<Rightarrow> Inl e | Inr reg' \<Rightarrow> register_all reg' calls)"

text \<open>Python's \<^verbatim>\<open>repr\<close> of a string, as \<^verbatim>\<open>%r\<close> formats it: single quotes unless the
  string has a single quote and no double quote; the quote in use and the backslash are
  escaped, tab, newline and carriage return are written with their letters, and every
  other non-printable character as a two-digit hexadecimal escape.\<close>

definition hex_digit :: "nat \<Rightarrow> char" where
  "hex_digit n = (if n < 10 then char_of (48 + n) else char_of (87 + n))"

definition printable :: "char \<Rightarrow> bool" where
  "printable ch = (let n = (of_char ch :: nat) in
     (32 \<le> n \<and> n < 127) \<or> (161 \<le> n \<and> n \<noteq> 173))"

definition repr_char :: "char \<Rightarrow> char \<Rightarrow> string" where
  "repr_char q ch =
     (if ch = q \<or> ch = CHR 0x5C then [CHR 0x5C, ch]
      else if ch = CHR 0x09 then [CHR 0x5C, CHR ''t'']
      else if ch = CHR 0x0A then [CHR 0x5C, CHR ''n'']
      else if ch = CHR 0x0D then [CHR 0x5C, CHR ''r'']
      else if printable ch then [ch]
      else [CHR 0x5C, CHR ''x'', hex_digit (of_char ch div 16), hex_digit (of_char ch mod 16)])"

definition repr_str :: "string \<Rightarrow> string" where
  "repr_str s =
     (let q = (if CHR 0x27 \<in> set s \<and> CHR 0x22 \<notin> set s then CHR 0x22 else CHR 0x27)
      in q # concat (map (repr_char q) s) @ [q])"

definition unavailable_message :: "string \<Rightarrow> string" where
  "unavailable_message scheme =
     ''The filesystem scheme '' @ repr_str scheme @
     '' is not available for use. For expanded filesystem scheme support, install the '' @
     [CHR 0x60] @ ''tensorflow'' @ [CHR 0x60] @
     '' package to enable additional filesystem plugins.''"

definition get_filesystem_for_scheme :: "FilesystemRegistry \<Rightarrow> string \<Rightarrow> error + filesystem_cls" where
  "get_filesystem_for_scheme reg scheme =
     (case preferred_filesystem_by_scheme reg scheme of
        None \<Rightarrow> Inl (Exception (unavailable_message scheme))
      | Some c \<Rightarrow> Inr c)"

text \<open>The match of the regular expression \<^verbatim>\<open>^([a-z0-9]+://)\<close>: the longest run of lower
  case letters and digits at the start of the path, when it is not empty and followed by
  \<^verbatim>\<open>://\<close>; the scheme is the empty string when there is no match.\<close>

definition is_scheme_char :: "char \<Rightarrow> bool" where
  "is_scheme_char ch = (let n = (of_char ch :: nat) in
     (97 \<le> n \<and> n \<le> 122) \<or> (48 \<le> n \<and> n \<le> 57))"

definition match_scheme :: "string \<Rightarrow> string option" where
  "match_scheme path =
     (let run = takeWhile is_scheme_char path; rest = dropWhile is_scheme_char path in
      if run \<noteq> [] \<and> take 3 rest = ''://'' then Some (run @ ''://'') else None)"

definition scheme_of_path :: "string \<Rightarrow> string" where
  "scheme_of_path path = (case match_scheme path of Some scheme \<Rightarrow> scheme | None \<Rightarrow> [])"

definition get_filesystem_for_path :: "FilesystemRegistry \<Rightarrow> string \<Rightarrow> error + filesystem_cls" where
  "get_filesystem_for_path reg path = get_filesystem_for_scheme reg (scheme_of_path path)"

section \<open>Notions used to state the properties\<close>

text \<open>A path ready to take another component: \<^verbatim>\<open>os.path.join\<close> puts a separator after
  it unless it is empty or ends in one already.\<close>

definition sep_end :: "string \<Rightarrow> string" where
  "sep_end p = (if p = [] \<or> last p = CHR ''/'' then p else p @ ''/'')"

text \<open>A relative component does not start with the separator.\<close>

definition relative :: "string \<Rightarrow> bool" where
  "relative b = (b = [] \<or> hd b \<noteq> CHR ''/'')"

text \<open>Views of a result dictionary: all its artifacts, their uris, the names under each
  key, and the list stored under one key (empty when the key is missing).\<close>

definition all_artifacts :: "(string \<times> artifact list) list \<Rightarrow> artifact list" where
  "all_artifacts d = concat (map snd d)"

definition uri_set :: "(string \<times> artifact list) list \<Rightarrow> string set" where
  "uri_set d = uri ` set (all_artifacts d)"

definition names_of :: "(string \<times> artifact list) list \<Rightarrow> (string \<times> string list) list" where
  "names_of d = map (\<lambda>(k, as). (k, map name as)) d"

definition lookup_artifacts :: "(string \<times> artifact list) list \<Rightarrow> string \<Rightarrow> artifact list" where
  "lookup_artifacts d k = (case map_of d k of None \<Rightarrow> [] | Some as \<Rightarrow> as)"

definition empty_world :: world where
  "empty_world = \<lparr>files = Map.empty, cwd = [], debug_log = []\<rparr>"

text \<open>A directory path that takes a separator when joined, and a segment that neither
  starts nor ends with the separator.\<close>

definition plain_dir :: "string \<Rightarrow> bool" where
  "plain_dir p = (p \<noteq> [] \<and> last p \<noteq> CHR ''/'')"

definition plain_segment :: "string \<Rightarrow> bool" where
  "plain_segment s = (s \<noteq> [] \<and> hd s \<noteq> CHR ''/'' \<and> last s \<noteq> CHR ''/'')"

text \<open>The node context of the running example: pipeline \<^verbatim>\<open>pipe1\<close>, run \<^verbatim>\<open>run1\<close>, node
  \<^verbatim>\<open>Trainer\<close>, root \<^verbatim>\<open>gs://bucket/pipe\<close>, with the given declared outputs.\<close>

definition example_resolver :: "(string \<times> artifact_class) list \<Rightarrow> OutputsResolver" where
  "example_resolver outs =
     init_OutputsResolver \<lparr>node_info_id = ''Trainer'', outputs = outs\<rparr>
       ''pipe1'' ''gs://bucket/pipe'' ''run1''"

text \<open>A directory cannot be made where the path itself or one of its ancestors is a file.\<close>

definition blocked :: "filesystem \<Rightarrow> string list \<Rightarrow> bool" where
  "blocked fs p = (\<exists>q \<in> set (prefixes p). is_file (fs q))"

text \<open>A world whose filesystem holds one file and nothing else.\<close>

definition file_world :: "string list \<Rightarrow> string \<Rightarrow> world" where
  "file_world p contents = \<lparr>files = [p \<mapsto> File contents], cwd = [], debug_log = []\<rparr>"

text \<open>The node of an artifact's uri, and the nodes of a collection none of which is
  equal to or inside another.\<close>

definition artifact_path :: "string list \<Rightarrow> artifact \<Rightarrow> string list" where
  "artifact_path wd a = split_path wd (uri a)"



text \<open>A filesystem given by the list of its entries (the first entry of a path counts).\<close>

definition fs_of :: "(string list \<times> node) list \<Rightarrow> filesystem" where
  "fs_of entries = map_of entries"

definition dir_artifact :: "string \<Rightarrow> artifact" where
  "dir_artifact u = \<lparr>cls = Artifact, uri = u, name = []\<rparr>"

definition value_artifact :: "string \<Rightarrow> artifact" where
  "value_artifact u = \<lparr>cls = ValueArtifact, uri = u, name = []\<rparr>"

text \<open>Descriptors and a filesystem for the examples: a value artifact and a directory
  artifact side by side, on a filesystem that already holds a non-empty value file and a
  file inside the directory; and three directory artifacts of which the second lies
  inside the first.\<close>

definition example_outputs :: "(string \<times> artifact list) list" where
  "example_outputs =
     [(''accuracy'', [value_artifact ''out/accuracy/value'']),
      (''model'', [dir_artifact ''out/model''])]"

definition example_fs :: filesystem where
  "example_fs =
     fs_of [([], Dir), ([''work''], Dir), ([''work'', ''out''], Dir),
            ([''work'', ''out'', ''accuracy''], Dir),
            ([''work'', ''out'', ''accuracy'', ''value''], File ''0.93''),
            ([''work'', ''out'', ''model''], Dir),
            ([''work'', ''out'', ''model'', ''weights''], File ''w'')]"



text \<open>Filesystem classes for the examples.\<close>

definition gcs_filesystem :: filesystem_cls where
  "gcs_filesystem = \<lparr>cls_name = ''GcsFilesystem'', SUPPORTED_SCHEMES = [''gs://'']\<rparr>"

definition local_filesystem :: filesystem_cls where
  "local_filesystem = \<lparr>cls_name = ''LocalFilesystem'', SUPPORTED_SCHEMES = ['''']\<rparr>"

definition tf_filesystem :: filesystem_cls where
  "tf_filesystem =
     \<lparr>cls_name = ''TensorflowFilesystem'', SUPPORTED_SCHEMES = ['''', ''gs://'', ''hdfs://'']\<rparr>"

definition alt_filesystem :: filesystem_cls where
  "alt_filesystem = \<lparr>cls_name = ''AltFilesystem'', SUPPORTED_SCHEMES = [''gs://'']\<rparr>"

text \<open>A sequence of register calls gives every class one priority.\<close>

definition consistent_priorities :: "(filesystem_cls \<times> int) list \<Rightarrow> bool" where
  "consistent_priorities calls =
     (\<forall>c p p'. (c, p) \<in> set calls \<longrightarrow> (c, p') \<in> set calls \<longrightarrow> p = p')"

text \<open>Text that \<^verbatim>\<open>repr\<close> shows as it is: printable ASCII without quote and backslash.\<close>

definition plain_text :: "string \<Rightarrow> bool" where
  "plain_text s =
     (\<forall>ch \<in> set s. 32 \<le> (of_char ch :: nat) \<and> (of_char ch :: nat) < 127 \<and>
        ch \<noteq> CHR 0x27 \<and> ch \<noteq> CHR 0x5C)"

text \<open>Invariants of the registry. Every preferred class has a priority; and, after the
  calls made so far, the priorities are the ones registered, every preferred class was
  registered for its scheme with a priority that no other class registered for the scheme
  undercuts, and every scheme of a registered class has a preferred class.\<close>

definition keyed :: "FilesystemRegistry \<Rightarrow> bool" where
  "keyed reg =
     (\<forall>s cur. preferred_filesystem_by_scheme reg s = Some cur \<longrightarrow>
        filesystem_priority reg cur \<noteq> None)"

definition registry_inv :: "(filesystem_cls \<times> int) list \<Rightarrow> FilesystemRegistry \<Rightarrow> bool" where
  "registry_inv calls reg =
     ((\<forall>(c, p) \<in> set calls. filesystem_priority reg c = Some p) \<and>
      (\<forall>s cur. preferred_filesystem_by_scheme reg s = Some cur \<longrightarrow>
         (\<exists>pc. (cur, pc) \<in> set calls \<and> s \<in> set (SUPPORTED_SCHEMES cur) \<and>
            (\<forall>(c', p') \<in> set calls. s \<in> set (SUPPORTED_SCHEMES c') \<longrightarrow> pc \<le> p'))) \<and>
      (\<forall>(c, p) \<in> set calls. \<forall>s \<in> set (SUPPORTED_SCHEMES c).
         preferred_filesystem_by_scheme reg s \<noteq> None))"

text \<open>What a fresh registry answers after a sequence of register calls: the filesystem
  for a path, and the priority it holds for a class.\<close>

definition lookup_after :: "(filesystem_cls \<times> int) list \<Rightarrow> string \<Rightarrow> error + filesystem_cls" where
  "lookup_after calls path =
     (case register_all init_FilesystemRegistry calls of
        Inl e \<Rightarrow> Inl e
      | Inr reg \<Rightarrow> get_filesystem_for_path reg path)"

definition priority_after :: "(filesystem_cls \<times> int) list \<Rightarrow> filesystem_cls \<Rightarrow> int option" where
  "priority_after calls c =
     (case register_all init_FilesystemRegistry calls of
        Inl e \<Rightarrow> None
      | Inr reg \<Rightarrow> filesystem_priority reg c)"

definition reregistered_calls :: "(filesystem_cls \<times> int) list" where
  "reregistered_calls =
     [(tf_filesystem, 2), (tf_filesystem, 20), (gcs_filesystem, 3), (alt_filesystem, 5),
      (gcs_filesystem, 10)]"

definition example_calls :: "(filesystem_cls \<times> int) list" where
  "example_calls =
     [(tf_filesystem, 20), (gcs_filesystem, 10), (alt_filesystem, 15), (local_filesystem, 5)]"

section \<open>Properties: decimal rendering of execution identifiers\<close>

lemma of_char_digit: "d < 10 \<Longrightarrow> of_char (digit_char d) = 48 + d"
  by (simp add: digit_char_def)

lemma digit_char_inj: "a < 10 \<Longrightarrow> b < 10 \<Longrightarrow> digit_char a = digit_char b \<Longrightarrow> a = b"
  using of_char_digit[of a] of_char_digit[of b] by (metis add_left_cancel)

lemma digit_char_not_sep: "d < 10 \<Longrightarrow> digit_char d \<noteq> CHR ''/''"
  using of_char_digit[of d] by auto

lemma digit_char_not_minus: "d < 10 \<Longrightarrow> digit_char d \<noteq> CHR ''-''"
  using of_char_digit[of d] by auto

lemma digits10_nonempty: "digits10 n \<noteq> []"
  by (subst digits10.simps) simp

lemma digits10_length_ge2: "10 \<le> n \<Longrightarrow> 2 \<le> length (digits10 n)"
  using digits10_nonempty[of "n div 10"]
  by (subst digits10.simps) (cases "digits10 (n div 10)"; simp)

lemma digits10_inj: "digits10 n = digits10 m \<Longrightarrow> n = m"
proof (induction n arbitrary: m rule: digits10.induct)
  case (1 n)
  show ?case
  proof (cases "n < 10")
    case small_n: True
    show ?thesis
    proof (cases "m < 10")
      case True
      with small_n "1.prems" show ?thesis
        by (simp add: digits10.simps[of n] digits10.simps[of m] digit_char_inj)
    next
      case False
      then have "2 \<le> length (digits10 m)" by (simp add: digits10_length_ge2)
      moreover have "length (digits10 n) = 1" using small_n by (simp add: digits10.simps[of n])
      ultimately show ?thesis using "1.prems" by simp
    qed
  next
    case big_n: False
    show ?thesis
    proof (cases "m < 10")
      case True
      then have "length (digits10 m) = 1" by (simp add: digits10.simps[of m])
      moreover have "2 \<le> length (digits10 n)" using big_n by (simp add: digits10_length_ge2)
      ultimately show ?thesis using "1.prems" by simp
    next
      case False
      with big_n "1.prems" have eq: "digits10 (n div 10) = digits10 (m div 10)"
        and d: "digit_char (n mod 10) = digit_char (m mod 10)"
        by (simp_all add: digits10.simps[of n] digits10.simps[of m])
      from "1.IH"[OF big_n eq] have "n div 10 = m div 10" .
      moreover from d have "n mod 10 = m mod 10" by (simp add: digit_char_inj)
      ultimately show ?thesis by (metis div_mult_mod_eq)
    qed
  qed
qed

lemma digits10_no_sep: "CHR ''/'' \<notin> set (digits10 n)"
proof (induction n rule: digits10.induct)
  case (1 n)
  then show ?case
    using digit_char_not_sep[of n] digit_char_not_sep[of "n mod 10"]
    by (subst digits10.simps) auto
qed

lemma digits10_no_minus: "CHR ''-'' \<notin> set (digits10 n)"
proof (induction n rule: digits10.induct)
  case (1 n)
  then show ?case
    using digit_char_not_minus[of n] digit_char_not_minus[of "n mod 10"]
    by (subst digits10.simps) auto
qed

lemma str_int_no_sep: "CHR ''/'' \<notin> set (str_int i)"
  by (simp add: str_int_def digits10_no_sep)

lemma str_int_inj: "str_int i = str_int j \<Longrightarrow> i = j"
proof -
  assume eq: "str_int i = str_int j"
  have hd_nonneg: "\<And>k. \<not> k < 0 \<Longrightarrow> hd (str_int k) \<noteq> CHR ''-''"
    using digits10_no_minus digits10_nonempty
    by (metis hd_in_set str_int_def)
  have hd_neg: "\<And>k. k < 0 \<Longrightarrow> hd (str_int k) = CHR ''-''"
    by (simp add: str_int_def)
  show "i = j"
  proof (cases "i < 0")
    case True
    then have "j < 0" using eq hd_neg hd_nonneg by metis
    with True eq have "digits10 (nat (- i)) = digits10 (nat (- j))" by (simp add: str_int_def)
    then have "nat (- i) = nat (- j)" by (rule digits10_inj)
    with True \<open>j < 0\<close> show ?thesis by simp
  next
    case False
    then have "\<not> j < 0" using eq hd_neg hd_nonneg by metis
    with False eq have "digits10 (nat i) = digits10 (nat j)" by (simp add: str_int_def)
    then have "nat i = nat j" by (rule digits10_inj)
    with False \<open>\<not> j < 0\<close> show ?thesis by simp
  qed
qed

section \<open>Properties: joining paths\<close>

lemma path_join_Nil: "path_join a [] = a" by (simp add: path_join_def)
lemma path_join_Cons: "path_join a (b # bs) = path_join (join2 a b) bs" by (simp add: path_join_def)
lemma path_join_append: "path_join a (bs @ cs) = path_join (path_join a bs) cs"
  by (simp add: path_join_def)

lemma join2_abs: "b \<noteq> [] \<Longrightarrow> hd b = CHR ''/'' \<Longrightarrow> join2 a b = b"
  by (simp add: join2_def)

lemma join2_rel: "relative b \<Longrightarrow> join2 a b = sep_end a @ b"
  by (auto simp: join2_def relative_def sep_end_def)

lemma execution_segment_relative: "relative (EXECUTION_PREFIX @ s)"
  by (simp add: relative_def EXECUTION_PREFIX_def)

lemma sep_end_execution: "sep_end (p @ EXECUTION_PREFIX @ str_int e) = p @ EXECUTION_PREFIX @ str_int e @ ''/''"
  using str_int_no_sep[of e] digits10_nonempty
  apply (simp add: sep_end_def EXECUTION_PREFIX_def)
  by (metis last_in_set str_int_def list.distinct(1))

lemma uri_rel_form:
  assumes "relative key"
  shows "\<exists>rest. uri (make_artifact r e key c) = sep_end (node_dir r) @ EXECUTION_PREFIX @ str_int e @ ''/'' @ rest"
proof -
  let ?d = "path_join (node_dir r) [EXECUTION_PREFIX @ str_int e, key]"
  have d: "?d = sep_end (node_dir r) @ EXECUTION_PREFIX @ str_int e @ ''/'' @ key"
    using assms sep_end_execution[of "sep_end (node_dir r)" e]
    by (simp add: path_join_Cons path_join_Nil join2_rel execution_segment_relative)
  have v: "path_join ?d [VALUE_ARTIFACT_FILE_NAME] = sep_end ?d @ VALUE_ARTIFACT_FILE_NAME"
    by (simp add: path_join_Cons path_join_Nil join2_rel relative_def VALUE_ARTIFACT_FILE_NAME_def)
  have "\<exists>x. sep_end ?d = ?d @ x" by (simp add: sep_end_def)
  then obtain x where x: "sep_end ?d = ?d @ x" ..
  show ?thesis
  proof (cases c)
    case ValueArtifact
    then have "uri (make_artifact r e key c) = path_join ?d [VALUE_ARTIFACT_FILE_NAME]"
      by (simp add: make_artifact_def Let_def deserialize_artifact_def isinstance_ValueArtifact_def)
    with v x d show ?thesis by simp
  next
    case Artifact
    then have "uri (make_artifact r e key c) = ?d"
      by (simp add: make_artifact_def Let_def deserialize_artifact_def isinstance_ValueArtifact_def)
    with d show ?thesis by simp
  qed
qed

lemma sep_split_unique:
  assumes "s1 @ CHR ''/'' # r1 = s2 @ CHR ''/'' # r2" "CHR ''/'' \<notin> set s1" "CHR ''/'' \<notin> set s2"
  shows "s1 = s2"
proof -
  have "takeWhile (\<lambda>c. c \<noteq> CHR ''/'') (s1 @ CHR ''/'' # r1) = s1"
    using assms(2) by (induction s1) auto
  moreover have "takeWhile (\<lambda>c. c \<noteq> CHR ''/'') (s2 @ CHR ''/'' # r2) = s2"
    using assms(3) by (induction s2) auto
  ultimately show ?thesis using assms(1) by simp
qed

lemma uri_distinct_executions:
  assumes "relative k1" "relative k2" "e1 \<noteq> e2"
  shows "uri (make_artifact r e1 k1 c1) \<noteq> uri (make_artifact r e2 k2 c2)"
proof
  assume eq: "uri (make_artifact r e1 k1 c1) = uri (make_artifact r e2 k2 c2)"
  from uri_rel_form[OF assms(1)] obtain x1 where
    x1: "uri (make_artifact r e1 k1 c1) = sep_end (node_dir r) @ EXECUTION_PREFIX @ str_int e1 @ ''/'' @ x1" by blast
  from uri_rel_form[OF assms(2)] obtain x2 where
    x2: "uri (make_artifact r e2 k2 c2) = sep_end (node_dir r) @ EXECUTION_PREFIX @ str_int e2 @ ''/'' @ x2" by blast
  from eq x1 x2 have "str_int e1 @ CHR ''/'' # x1 = str_int e2 @ CHR ''/'' # x2" by simp
  then have "str_int e1 = str_int e2"
    by (rule sep_split_unique) (rule str_int_no_sep)+
  then show False using assms(3) str_int_inj by blast
qed

lemma name_make_artifact:
  "name (make_artifact r e key c) =
     pipeline_info_id r @ '':'' @ pipeline_run_id r @ '':'' @ node_info_id (pipeline_node r) @ '':'' @ key @ '':0''"
proof -
  have "str_int 0 = ''0''" by code_simp
  then show ?thesis by (simp add: make_artifact_def Let_def)
qed

lemma all_artifacts_dd_append: "set (all_artifacts (dd_append d k a)) = insert a (set (all_artifacts d))"
  by (induction d k a rule: dd_append.induct) (auto simp: all_artifacts_def)

lemma names_of_dd_append: "names_of (dd_append d k a) = dd_append (names_of d) k (name a)"
  by (induction d k a rule: dd_append.induct) (auto simp: names_of_def)

lemma lookup_dd_append:
  "lookup_artifacts (dd_append d k a) k' =
     (if k' = k then lookup_artifacts d k' @ [a] else lookup_artifacts d k')"
  by (induction d k a rule: dd_append.induct) (auto simp: lookup_artifacts_def)

lemma generate_loop_artifacts:
  "set (all_artifacts (fst (generate_loop r e os d w))) =
     set (all_artifacts d) \<union> (\<lambda>(k, c). make_artifact r e k c) ` set os"
  by (induction r e os d w rule: generate_loop.induct)
     (auto simp: Let_def all_artifacts_dd_append)

lemma generate_loop_names:
  "names_of d1 = names_of d2 \<Longrightarrow>
   names_of (fst (generate_loop r e1 os d1 w1)) = names_of (fst (generate_loop r e2 os d2 w2))"
proof (induction os arbitrary: d1 d2 w1 w2)
  case Nil
  then show ?case by simp
next
  case (Cons x os)
  obtain k c where x: "x = (k, c)" by (cases x)
  have "names_of (dd_append d1 k (make_artifact r e1 k c)) =
        names_of (dd_append d2 k (make_artifact r e2 k c))"
    using Cons.prems by (simp add: names_of_dd_append name_make_artifact)
  from Cons.IH[OF this] show ?case by (simp add: x Let_def)
qed

lemma generate_loop_lookup:
  "lookup_artifacts (fst (generate_loop r e os d w)) k =
     lookup_artifacts d k @ map (make_artifact r e k) (map snd (filter (\<lambda>x. fst x = k) os))"
  by (induction r e os d w rule: generate_loop.induct)
     (auto simp: Let_def lookup_dd_append)

lemma generate_loop_files: "files (snd (generate_loop r e os d w)) = files w"
  by (induction r e os d w rule: generate_loop.induct) (auto simp: Let_def)

lemma generate_loop_result_indep:
  "fst (generate_loop r e os d w) = fst (generate_loop r e os d w')"
  by (induction os arbitrary: d w w') (auto simp: Let_def)

lemma generate_loop_log:
  "debug_log (snd (generate_loop r e os d w)) =
     debug_log w @ map (\<lambda>(k, c). ''Creating output artifact uri '' @ uri (make_artifact r e k c) @ '' as directory'') os"
  by (induction r e os d w rule: generate_loop.induct) (auto simp: Let_def)

lemma generate_uri_set:
  "uri_set (fst (generate_output_artifacts r e w)) =
     (\<lambda>(k, c). uri (make_artifact r e k c)) ` set (outputs (pipeline_node r))"
proof -
  have "set (all_artifacts []) = {}" by (simp add: all_artifacts_def)
  then show ?thesis
    by (auto simp: uri_set_def generate_output_artifacts_def generate_loop_artifacts)
qed

section \<open>Properties: the outputs resolver\<close>

lemma str_int_0: "str_int 0 = ''0''" by code_simp
lemma str_int_7: "str_int 7 = ''7''" by code_simp
lemma str_int_8: "str_int 8 = ''8''" by code_simp

lemmas resolver_eval =
  generate_output_artifacts_def example_resolver_def init_OutputsResolver_def make_artifact_def
  path_join_def join2_def deserialize_artifact_def isinstance_ValueArtifact_def
  EXECUTION_PREFIX_def VALUE_ARTIFACT_FILE_NAME_def Let_def

text \<open>
  Claim C1, as stated, at a concrete input: a node whose single output key is the absolute
  path \<^verbatim>\<open>/abs\<close>. Joining an absolute component discards the execution directory, so
  executions 1 and 2 are given the same uri and the two uri sets meet.
\<close>

theorem absolute_key_shared_uri:
  "uri_set (fst (generate_output_artifacts (example_resolver [(''/abs'', Artifact)]) 1 empty_world)) \<inter>
   uri_set (fst (generate_output_artifacts (example_resolver [(''/abs'', Artifact)]) 2 empty_world)) \<noteq> {}"
  by (simp add: generate_uri_set make_artifact_def example_resolver_def init_OutputsResolver_def
        path_join_def join2_def deserialize_artifact_def isinstance_ValueArtifact_def Let_def)

text \<open>
  Claim C1 (amended): for every node context whose output keys are relative (none starts
  with the separator) and every pair of distinct execution identifiers, the uri sets
  returned by \<^verbatim>\<open>generate_output_artifacts\<close> for the two identifiers are disjoint, while
  the names returned under each output key are the same for both.
\<close>

theorem distinct_executions_disjoint_uris:
  assumes "\<forall>(k, c) \<in> set (outputs (pipeline_node r)). relative k" and "e1 \<noteq> e2"
  shows "uri_set (fst (generate_output_artifacts r e1 w1)) \<inter>
         uri_set (fst (generate_output_artifacts r e2 w2)) = {}
       \<and> names_of (fst (generate_output_artifacts r e1 w1)) =
         names_of (fst (generate_output_artifacts r e2 w2))"
proof
  show "uri_set (fst (generate_output_artifacts r e1 w1)) \<inter>
        uri_set (fst (generate_output_artifacts r e2 w2)) = {}"
  proof (rule ccontr)
    assume "\<not> ?thesis"
    then obtain u where u1: "u \<in> uri_set (fst (generate_output_artifacts r e1 w1))"
      and u2: "u \<in> uri_set (fst (generate_output_artifacts r e2 w2))" by blast
    from u1 obtain k1 c1 where m1: "(k1, c1) \<in> set (outputs (pipeline_node r))"
      and v1: "u = uri (make_artifact r e1 k1 c1)"
      by (auto simp: generate_uri_set)
    from u2 obtain k2 c2 where m2: "(k2, c2) \<in> set (outputs (pipeline_node r))"
      and v2: "u = uri (make_artifact r e2 k2 c2)"
      by (auto simp: generate_uri_set)
    from m1 m2 assms(1) have "relative k1" "relative k2" by auto
    from uri_distinct_executions[OF this assms(2)] v1 v2 show False by metis
  qed
next
  show "names_of (fst (generate_output_artifacts r e1 w1)) =
        names_of (fst (generate_output_artifacts r e2 w2))"
    unfolding generate_output_artifacts_def by (rule generate_loop_names) simp
qed

text \<open>The same at the running example with outputs \<^verbatim>\<open>model\<close> and \<^verbatim>\<open>accuracy\<close>,
  executions 7 and 8.\<close>

theorem distinct_executions_disjoint_uris_witness:
  "uri_set (fst (generate_output_artifacts
      (example_resolver [(''model'', Artifact), (''accuracy'', ValueArtifact)]) 7 empty_world)) =
     {''gs://bucket/pipe/Trainer/execution_7/model'',
      ''gs://bucket/pipe/Trainer/execution_7/accuracy/value''}
   \<and> uri_set (fst (generate_output_artifacts
      (example_resolver [(''model'', Artifact), (''accuracy'', ValueArtifact)]) 7 empty_world)) \<inter>
     uri_set (fst (generate_output_artifacts
      (example_resolver [(''model'', Artifact), (''accuracy'', ValueArtifact)]) 8 empty_world)) = {}
   \<and> names_of (fst (generate_output_artifacts
      (example_resolver [(''model'', Artifact), (''accuracy'', ValueArtifact)]) 7 empty_world)) =
     names_of (fst (generate_output_artifacts
      (example_resolver [(''model'', Artifact), (''accuracy'', ValueArtifact)]) 8 empty_world))"
proof -
  let ?r = "example_resolver [(''model'', Artifact), (''accuracy'', ValueArtifact)]"
  have rel: "\<forall>(k, c) \<in> set (outputs (pipeline_node ?r)). relative k"
    by (simp add: example_resolver_def init_OutputsResolver_def relative_def)
  have ne: "(7::int) \<noteq> 8" by simp
  have u: "uri_set (fst (generate_output_artifacts ?r 7 empty_world)) =
     {''gs://bucket/pipe/Trainer/execution_7/model'',
      ''gs://bucket/pipe/Trainer/execution_7/accuracy/value''}"
    by (simp add: generate_uri_set make_artifact_def example_resolver_def init_OutputsResolver_def
        path_join_def join2_def deserialize_artifact_def isinstance_ValueArtifact_def Let_def
        EXECUTION_PREFIX_def VALUE_ARTIFACT_FILE_NAME_def str_int_7)
  from distinct_executions_disjoint_uris[OF rel ne, of empty_world empty_world] u
  show ?thesis by simp
qed

text \<open>
  Claim C3, as stated, at its own input: for the value-kind output \<^verbatim>\<open>model\<close> and
  execution 7 the uri returned is not \<^verbatim>\<open>gs://bucket/pipe/Trainer/execution_7/model\<close>.
\<close>

theorem example_model_uri_not_bare:
  "map uri (all_artifacts (fst (generate_output_artifacts
      (example_resolver [(''model'', ValueArtifact)]) 7 empty_world))) \<noteq>
   [''gs://bucket/pipe/Trainer/execution_7/model'']"
  by (simp add: resolver_eval str_int_7 all_artifacts_def)

text \<open>
  Claim C3 (amended): for root \<^verbatim>\<open>gs://bucket/pipe\<close>, pipeline \<^verbatim>\<open>pipe1\<close>, run
  \<^verbatim>\<open>run1\<close>, node \<^verbatim>\<open>Trainer\<close>, a single value-kind output with key \<^verbatim>\<open>model\<close> and
  execution 7, the artifact returned has uri
  \<^verbatim>\<open>gs://bucket/pipe/Trainer/execution_7/model/value\<close> and name
  \<^verbatim>\<open>pipe1:run1:Trainer:model:0\<close>; the uri \<^verbatim>\<open>gs://bucket/pipe/Trainer/execution_7/model\<close>
  is the one of an output of the same key that is not of value kind.
\<close>

theorem example_model_artifact:
  "fst (generate_output_artifacts (example_resolver [(''model'', ValueArtifact)]) 7 w) =
     [(''model'', [\<lparr>cls = ValueArtifact,
                    uri = ''gs://bucket/pipe/Trainer/execution_7/model/value'',
                    name = ''pipe1:run1:Trainer:model:0''\<rparr>])]
   \<and> fst (generate_output_artifacts (example_resolver [(''model'', Artifact)]) 7 w) =
     [(''model'', [\<lparr>cls = Artifact,
                    uri = ''gs://bucket/pipe/Trainer/execution_7/model'',
                    name = ''pipe1:run1:Trainer:model:0''\<rparr>])]"
  by (simp add: resolver_eval str_int_7 str_int_0)

lemma generate_loop_world:
  "snd (generate_loop r e os d w) = w\<lparr>debug_log := debug_log (snd (generate_loop r e os d w))\<rparr>"
  by (induction r e os d w rule: generate_loop.induct) (auto simp: Let_def)

text \<open>
  Claim C6: \<^verbatim>\<open>generate_output_artifacts\<close> leaves the storage untouched. The filesystem
  after the call is the filesystem before it, the only component of the world that
  differs is the debug log (one line per output), and the descriptors returned do not
  depend on the world the call runs in: it only computes strings.
\<close>

theorem generate_output_artifacts_no_io:
  "files (snd (generate_output_artifacts r execution_id w)) = files w
   \<and> snd (generate_output_artifacts r execution_id w) =
       w\<lparr>debug_log := debug_log (snd (generate_output_artifacts r execution_id w))\<rparr>
   \<and> fst (generate_output_artifacts r execution_id w) =
     fst (generate_output_artifacts r execution_id w')"
  using generate_loop_result_indep[of r execution_id "outputs (pipeline_node r)" "[]" w w']
    generate_loop_world[of r execution_id "outputs (pipeline_node r)" "[]" w]
  by (simp add: generate_output_artifacts_def generate_loop_files)

lemma join2_plain: "plain_dir a \<Longrightarrow> relative b \<Longrightarrow> join2 a b = a @ ''/'' @ b"
  by (auto simp: join2_def plain_dir_def relative_def)

lemma plain_segment_relative: "plain_segment s \<Longrightarrow> relative s"
  by (simp add: plain_segment_def relative_def)

lemma plain_dir_extend: "plain_segment b \<Longrightarrow> plain_dir (a @ ''/'' @ b)"
  by (simp add: plain_segment_def plain_dir_def)

lemma plain_segment_execution: "plain_segment (EXECUTION_PREFIX @ str_int e)"
proof -
  have "str_int e \<noteq> []" using digits10_nonempty by (simp add: str_int_def)
  moreover from this have "last (str_int e) \<noteq> CHR ''/''"
    using str_int_no_sep[of e] last_in_set by metis
  ultimately show ?thesis by (simp add: plain_segment_def EXECUTION_PREFIX_def)
qed

lemma path_join_plain2:
  "plain_dir a \<Longrightarrow> plain_segment b \<Longrightarrow> relative c \<Longrightarrow>
   path_join a [b, c] = a @ ''/'' @ b @ ''/'' @ c"
  using plain_dir_extend[of b a]
  by (simp add: path_join_Cons path_join_Nil join2_plain plain_segment_relative)

lemma path_join_plain3:
  "plain_dir a \<Longrightarrow> plain_segment b \<Longrightarrow> plain_segment c \<Longrightarrow> relative d \<Longrightarrow>
   path_join a [b, c, d] = a @ ''/'' @ b @ ''/'' @ c @ ''/'' @ d"
  using plain_dir_extend[of b a] plain_dir_extend[of c "a @ ''/'' @ b"]
  by (simp add: path_join_Cons path_join_Nil join2_plain plain_segment_relative)

lemma path_join_plain4:
  "plain_dir a \<Longrightarrow> plain_segment b \<Longrightarrow> plain_segment c \<Longrightarrow> plain_segment d \<Longrightarrow> relative x \<Longrightarrow>
   path_join a [b, c, d, x] = a @ ''/'' @ b @ ''/'' @ c @ ''/'' @ d @ ''/'' @ x"
  using plain_dir_extend[of b a] plain_dir_extend[of c "a @ ''/'' @ b"]
    plain_dir_extend[of d "a @ ''/'' @ b @ ''/'' @ c"]
  by (simp add: path_join_Cons path_join_Nil join2_plain plain_segment_relative)

lemma uri_value_artifact:
  "uri (make_artifact (init_OutputsResolver node info_id root run_id) e key ValueArtifact) =
     path_join root [node_info_id node, EXECUTION_PREFIX @ str_int e, key, VALUE_ARTIFACT_FILE_NAME]"
  by (simp add: make_artifact_def init_OutputsResolver_def Let_def deserialize_artifact_def
        isinstance_ValueArtifact_def path_join_def)

lemma cls_make_artifact: "cls (make_artifact r e key c) = c"
  by (simp add: make_artifact_def Let_def deserialize_artifact_def)

lemma lookup_generate:
  "lookup_artifacts (fst (generate_output_artifacts r e w)) k =
     map (make_artifact r e k) (map snd (filter (\<lambda>x. fst x = k) (outputs (pipeline_node r))))"
proof -
  have "lookup_artifacts [] k = []" by (simp add: lookup_artifacts_def)
  then show ?thesis by (simp add: generate_output_artifacts_def generate_loop_lookup)
qed

text \<open>
  Claim C4: for every output key declared with a value artifact type, the result holds a
  value artifact under that key, and the uri of every value artifact under that key is
  the join of root, node id, \<^verbatim>\<open>execution_<id>\<close>, the key and the fixed file name
  \<^verbatim>\<open>value\<close>. When root, node id and key are plain (non-empty, no separator at either
  end) this join is the string \<^verbatim>\<open>root/node_id/execution_<id>/key/value\<close>.
\<close>

theorem value_artifact_uri:
  assumes "(key, ValueArtifact) \<in> set (outputs node)"
  shows "(\<exists>a \<in> set (lookup_artifacts (fst (generate_output_artifacts
              (init_OutputsResolver node info_id root run_id) e w)) key). cls a = ValueArtifact)
   \<and> (\<forall>a \<in> set (lookup_artifacts (fst (generate_output_artifacts
              (init_OutputsResolver node info_id root run_id) e w)) key).
        cls a = ValueArtifact \<longrightarrow>
        uri a = path_join root
                  [node_info_id node, EXECUTION_PREFIX @ str_int e, key, VALUE_ARTIFACT_FILE_NAME])
   \<and> (plain_dir root \<and> plain_segment (node_info_id node) \<and> plain_segment key \<longrightarrow>
        path_join root
          [node_info_id node, EXECUTION_PREFIX @ str_int e, key, VALUE_ARTIFACT_FILE_NAME] =
        root @ ''/'' @ node_info_id node @ ''/execution_'' @ str_int e @ ''/'' @ key @ ''/value'')"
proof (intro conjI)
  let ?r = "init_OutputsResolver node info_id root run_id"
  have outs: "outputs (pipeline_node ?r) = outputs node" by (simp add: init_OutputsResolver_def)
  from assms have "make_artifact ?r e key ValueArtifact \<in>
      set (lookup_artifacts (fst (generate_output_artifacts ?r e w)) key)"
    by (force simp: lookup_generate outs)
  then show "\<exists>a \<in> set (lookup_artifacts (fst (generate_output_artifacts ?r e w)) key).
      cls a = ValueArtifact"
    using cls_make_artifact by blast
  show "\<forall>a \<in> set (lookup_artifacts (fst (generate_output_artifacts ?r e w)) key).
        cls a = ValueArtifact \<longrightarrow>
        uri a = path_join root
                  [node_info_id node, EXECUTION_PREFIX @ str_int e, key, VALUE_ARTIFACT_FILE_NAME]"
    by (auto simp: lookup_generate cls_make_artifact uri_value_artifact)
  show "plain_dir root \<and> plain_segment (node_info_id node) \<and> plain_segment key \<longrightarrow>
        path_join root
          [node_info_id node, EXECUTION_PREFIX @ str_int e, key, VALUE_ARTIFACT_FILE_NAME] =
        root @ ''/'' @ node_info_id node @ ''/execution_'' @ str_int e @ ''/'' @ key @ ''/value''"
    using plain_segment_execution[of e]
    by (auto simp: path_join_plain4 relative_def VALUE_ARTIFACT_FILE_NAME_def EXECUTION_PREFIX_def)
qed

text \<open>The instance of the claim: key \<^verbatim>\<open>accuracy\<close>, root \<^verbatim>\<open>gs://bucket/pipe\<close>, node
  \<^verbatim>\<open>Trainer\<close>, execution 7.\<close>

theorem value_artifact_uri_witness:
  "lookup_artifacts (fst (generate_output_artifacts
       (example_resolver [(''accuracy'', ValueArtifact)]) 7 empty_world)) ''accuracy'' =
     [\<lparr>cls = ValueArtifact, uri = ''gs://bucket/pipe/Trainer/execution_7/accuracy/value'',
       name = ''pipe1:run1:Trainer:accuracy:0''\<rparr>]"
proof -
  let ?node = "\<lparr>node_info_id = ''Trainer'', outputs = [(''accuracy'', ValueArtifact)]\<rparr>"
  have m: "(''accuracy'', ValueArtifact) \<in> set (outputs ?node)" by simp
  have l: "lookup_artifacts (fst (generate_output_artifacts
       (example_resolver [(''accuracy'', ValueArtifact)]) 7 empty_world)) ''accuracy'' =
     [make_artifact (example_resolver [(''accuracy'', ValueArtifact)]) 7 ''accuracy'' ValueArtifact]"
    by (simp add: lookup_generate example_resolver_def init_OutputsResolver_def)
  have p: "plain_dir ''gs://bucket/pipe'' \<and> plain_segment (node_info_id ?node) \<and> plain_segment ''accuracy''"
    by (simp add: plain_dir_def plain_segment_def)
  from value_artifact_uri[OF m, of "''pipe1''" "''gs://bucket/pipe''" "''run1''" 7 empty_world] p l
  show ?thesis
    by (simp add: example_resolver_def cls_make_artifact name_make_artifact str_int_7
          init_OutputsResolver_def artifact.equality)
qed

section \<open>Properties: directories made by the resolver\<close>

lemma resolve_nonempty: "p \<noteq> [] \<Longrightarrow> resolve wd p = Some (split_path wd p)"
  by (simp add: resolve_def)

lemma gfile_makedirs_nonempty:
  "p \<noteq> [] \<Longrightarrow> gfile_makedirs wd fs p = makedirs fs (split_path wd p)"
  by (simp add: gfile_makedirs_def resolve_def)

lemma gfile_makedirs_empty: "gfile_makedirs wd fs [] = Inr fs"
  by (simp add: gfile_makedirs_def resolve_def)

lemma makedirs_ok:
  "\<not> blocked fs p \<Longrightarrow> makedirs fs p = Inr (\<lambda>q. if prefix q p then Some Dir else fs q)"
  by (simp add: makedirs_def blocked_def)

lemma makedirs_blocked: "blocked fs p \<Longrightarrow> makedirs fs p = Inl OpError"
  by (simp add: makedirs_def blocked_def)

lemma makedirs_Inr_iff:
  "makedirs fs p = Inr fs' \<longleftrightarrow> \<not> blocked fs p \<and> fs' = (\<lambda>q. if prefix q p then Some Dir else fs q)"
  by (auto simp: makedirs_def blocked_def)

lemma makedirs_isdir: "makedirs fs p = Inr fs' \<Longrightarrow> isdir fs' p"
  by (simp add: makedirs_Inr_iff isdir_def)

lemma makedirs_keeps: "makedirs fs p = Inr fs' \<Longrightarrow> fs q = Some n \<Longrightarrow> fs' q = Some n"
proof -
  assume m: "makedirs fs p = Inr fs'" and q: "fs q = Some n"
  from m have nb: "\<not> blocked fs p" and fs': "fs' = (\<lambda>q. if prefix q p then Some Dir else fs q)"
    by (simp_all add: makedirs_Inr_iff)
  show "fs' q = Some n"
  proof (cases "prefix q p")
    case True
    then have "q \<in> set (prefixes p)" by (simp add: in_set_prefixes)
    with nb have "\<not> is_file (fs q)" by (auto simp: blocked_def)
    with q have "n = Dir" by (cases n) (simp_all add: is_file_def)
    with True fs' show ?thesis by simp
  next
    case False
    with fs' q show ?thesis by simp
  qed
qed

lemma makedirs_is_file: "makedirs fs p = Inr fs' \<Longrightarrow> is_file (fs' q) = is_file (fs q)"
proof -
  assume m: "makedirs fs p = Inr fs'"
  from m have nb: "\<not> blocked fs p" and fs': "fs' = (\<lambda>q. if prefix q p then Some Dir else fs q)"
    by (simp_all add: makedirs_Inr_iff)
  show "is_file (fs' q) = is_file (fs q)"
  proof (cases "prefix q p")
    case True
    then have "q \<in> set (prefixes p)" by (simp add: in_set_prefixes)
    with nb have "\<not> is_file (fs q)" by (auto simp: blocked_def)
    with True fs' show ?thesis by (simp add: is_file_def)
  next
    case False
    with fs' show ?thesis by simp
  qed
qed

lemma makedirs_not_blocked: "makedirs fs p = Inr fs' \<Longrightarrow> blocked fs' q = blocked fs q"
  by (simp add: blocked_def makedirs_is_file)

lemma dirname_join:
  assumes "plain_dir a" and "CHR ''/'' \<notin> set b"
  shows "dirname (a @ ''/'' @ b) = a"
proof -
  from assms(1) have a: "a \<noteq> []" and la: "last a \<noteq> CHR ''/''" by (simp_all add: plain_dir_def)
  have d: "dropWhile (\<lambda>c. c \<noteq> CHR ''/'') (rev b @ CHR ''/'' # rev a) = CHR ''/'' # rev a"
    using assms(2) by (induction b rule: rev_induct) auto
  have head: "rev (dropWhile (\<lambda>c. c \<noteq> CHR ''/'') (rev (a @ ''/'' @ b))) = a @ ''/''"
    using d by simp
  have "last a \<in> set (a @ ''/'')" using a by simp
  then have not_all: "a @ ''/'' \<noteq> replicate (length (a @ ''/'')) (CHR ''/'')"
    using la by (metis in_set_replicate)
  have "hd (rev a) \<noteq> CHR ''/''" using a la by (simp add: hd_rev)
  then have "dropWhile (\<lambda>c. c = CHR ''/'') (rev a) = rev a"
    using a by (cases "rev a") auto
  then have strip: "rstrip_sep (a @ ''/'') = a" by (simp add: rstrip_sep_def)
  show ?thesis
    unfolding dirname_def head Let_def using not_all strip by simp
qed

lemma execution_dir_form:
  "path_join d [EXECUTION_PREFIX @ str_int e] = sep_end d @ EXECUTION_PREFIX @ str_int e"
  by (simp add: path_join_Cons path_join_Nil join2_rel execution_segment_relative)

lemma plain_dir_execution_dir: "plain_dir (path_join d [EXECUTION_PREFIX @ str_int e])"
  using plain_segment_execution[of e]
  by (simp add: execution_dir_form plain_dir_def plain_segment_def)

lemma path_join_plain1: "plain_dir a \<Longrightarrow> relative b \<Longrightarrow> path_join a [b] = a @ ''/'' @ b"
  by (simp add: path_join_Cons path_join_Nil join2_plain)

lemma executor_output_form:
  "path_join (path_join d [EXECUTION_PREFIX @ str_int e]) [EXECUTION_OUTPUT_FILE] =
     path_join d [EXECUTION_PREFIX @ str_int e] @ ''/'' @ EXECUTION_OUTPUT_FILE"
  by (rule path_join_plain1[OF plain_dir_execution_dir])
     (simp add: relative_def EXECUTION_OUTPUT_FILE_def)

lemma dirname_executor_output:
  "dirname (path_join (path_join d [EXECUTION_PREFIX @ str_int e]) [EXECUTION_OUTPUT_FILE]) =
     path_join d [EXECUTION_PREFIX @ str_int e]"
  unfolding executor_output_form
  by (rule dirname_join[OF plain_dir_execution_dir]) (simp add: EXECUTION_OUTPUT_FILE_def)

text \<open>
  Claim C7: for every execution identifier, \<^verbatim>\<open>get_executor_output_uri\<close> returns the join
  of root, node id, \<^verbatim>\<open>execution_<id>\<close> and \<^verbatim>\<open>executor_output.pb\<close>, and the execution
  directory, which is the parent directory of the returned path, is a directory when the
  call returns; whatever existed before is still there. The call returns unless the
  directory cannot be made because a file is in the way, in which case it raises. For a
  plain root and node id the returned path is the string
  \<^verbatim>\<open>root/node_id/execution_<id>/executor_output.pb\<close>.
\<close>

theorem executor_output_uri:
  "(\<not> blocked (files w)
        (split_path (cwd w) (path_join root [node_info_id node, EXECUTION_PREFIX @ str_int e])) \<longrightarrow>
      (\<exists>w'. get_executor_output_uri (init_OutputsResolver node info_id root run_id) e w =
              Inr (path_join root
                     [node_info_id node, EXECUTION_PREFIX @ str_int e, EXECUTION_OUTPUT_FILE], w')
          \<and> isdir (files w')
               (split_path (cwd w) (path_join root [node_info_id node, EXECUTION_PREFIX @ str_int e]))
          \<and> (\<forall>q n. files w q = Some n \<longrightarrow> files w' q = Some n)))
   \<and> (blocked (files w)
        (split_path (cwd w) (path_join root [node_info_id node, EXECUTION_PREFIX @ str_int e])) \<longrightarrow>
      get_executor_output_uri (init_OutputsResolver node info_id root run_id) e w = Inl OpError)
   \<and> dirname (path_join root
               [node_info_id node, EXECUTION_PREFIX @ str_int e, EXECUTION_OUTPUT_FILE]) =
       path_join root [node_info_id node, EXECUTION_PREFIX @ str_int e]
   \<and> (plain_dir root \<and> plain_segment (node_info_id node) \<longrightarrow>
       path_join root [node_info_id node, EXECUTION_PREFIX @ str_int e, EXECUTION_OUTPUT_FILE] =
       root @ ''/'' @ node_info_id node @ ''/execution_'' @ str_int e @ ''/executor_output.pb'')"
proof (intro conjI impI)
  let ?r = "init_OutputsResolver node info_id root run_id"
  let ?E = "path_join root [node_info_id node, EXECUTION_PREFIX @ str_int e]"
  let ?U = "path_join root [node_info_id node, EXECUTION_PREFIX @ str_int e, EXECUTION_OUTPUT_FILE]"
  have E: "path_join (node_dir ?r) [EXECUTION_PREFIX @ str_int e] = ?E"
    by (simp add: init_OutputsResolver_def path_join_def)
  have U: "path_join ?E [EXECUTION_OUTPUT_FILE] = ?U" by (simp add: path_join_def)
  have "?E = path_join (path_join root [node_info_id node]) [EXECUTION_PREFIX @ str_int e]"
    by (simp add: path_join_def)
  then have ne: "?E \<noteq> []"
    using plain_dir_execution_dir[of "path_join root [node_info_id node]" e]
    by (simp add: plain_dir_def)
  {
    assume nb: "\<not> blocked (files w) (split_path (cwd w) ?E)"
    let ?fs = "\<lambda>q. if prefix q (split_path (cwd w) ?E) then Some Dir else files w q"
    have mk: "makedirs (files w) (split_path (cwd w) ?E) = Inr ?fs" using nb by (rule makedirs_ok)
    have "get_executor_output_uri ?r e w = Inr (?U, w\<lparr>files := ?fs\<rparr>)"
      by (simp add: get_executor_output_uri_def E U gfile_makedirs_nonempty[OF ne] mk Let_def)
    moreover have "isdir (files (w\<lparr>files := ?fs\<rparr>)) (split_path (cwd w) ?E)"
      by (simp add: isdir_def)
    moreover have "\<forall>q n. files w q = Some n \<longrightarrow> files (w\<lparr>files := ?fs\<rparr>) q = Some n"
      using makedirs_keeps[OF mk] by simp
    ultimately show "\<exists>w'. get_executor_output_uri ?r e w = Inr (?U, w')
          \<and> isdir (files w') (split_path (cwd w) ?E)
          \<and> (\<forall>q n. files w q = Some n \<longrightarrow> files w' q = Some n)"
      by blast
  }
  {
    assume "blocked (files w) (split_path (cwd w) ?E)"
    then show "get_executor_output_uri ?r e w = Inl OpError"
      by (simp add: get_executor_output_uri_def E gfile_makedirs_nonempty[OF ne] makedirs_blocked
            Let_def)
  }
  have "?E = path_join (path_join root [node_info_id node]) [EXECUTION_PREFIX @ str_int e]"
    by (simp add: path_join_def)
  moreover have "?U = path_join (path_join (path_join root [node_info_id node])
      [EXECUTION_PREFIX @ str_int e]) [EXECUTION_OUTPUT_FILE]"
    by (simp add: path_join_def)
  ultimately show "dirname ?U = ?E" by (simp only: dirname_executor_output)
  {
    assume "plain_dir root \<and> plain_segment (node_info_id node)"
    then show "?U = root @ ''/'' @ node_info_id node @ ''/execution_'' @ str_int e @ ''/executor_output.pb''"
      using plain_segment_execution[of e]
      by (simp add: path_join_plain3 relative_def EXECUTION_OUTPUT_FILE_def EXECUTION_PREFIX_def)
  }
qed

text \<open>
  Claim C2: \<^verbatim>\<open>get_stateful_working_directory\<close> returns the join of root, node id,
  pipeline run id and \<^verbatim>\<open>stateful_working_dir\<close> (and raises only when the directory cannot
  be made). The path is built from the node context alone: it is the same in every
  world, in particular in the world left by \<^verbatim>\<open>get_executor_output_uri\<close> of any
  execution identifier. For a plain root, node id and run id it is the string
  \<^verbatim>\<open>root/node_id/pipeline_run_id/stateful_working_dir\<close>.
\<close>

theorem stateful_working_directory_path:
  "(\<not> blocked (files w)
        (split_path (cwd w) (path_join root [node_info_id node, run_id, STATEFUL_WORKING_DIR])) \<longrightarrow>
      (\<exists>w'. get_stateful_working_directory (init_OutputsResolver node info_id root run_id) w =
              Inr (path_join root [node_info_id node, run_id, STATEFUL_WORKING_DIR], w')
          \<and> isdir (files w')
               (split_path (cwd w) (path_join root [node_info_id node, run_id, STATEFUL_WORKING_DIR]))))
   \<and> (blocked (files w)
        (split_path (cwd w) (path_join root [node_info_id node, run_id, STATEFUL_WORKING_DIR])) \<longrightarrow>
      get_stateful_working_directory (init_OutputsResolver node info_id root run_id) w =
        Inl OpError)
   \<and> (\<forall>e u w1.
        \<not> blocked (files w)
            (split_path (cwd w) (path_join root [node_info_id node, run_id, STATEFUL_WORKING_DIR])) \<and>
        get_executor_output_uri (init_OutputsResolver node info_id root run_id) e w =
          Inr (u, w1) \<longrightarrow>
        (\<exists>w2. get_stateful_working_directory (init_OutputsResolver node info_id root run_id) w1 =
              Inr (path_join root [node_info_id node, run_id, STATEFUL_WORKING_DIR], w2)))
   \<and> (plain_dir root \<and> plain_segment (node_info_id node) \<and> plain_segment run_id \<longrightarrow>
       path_join root [node_info_id node, run_id, STATEFUL_WORKING_DIR] =
       root @ ''/'' @ node_info_id node @ ''/'' @ run_id @ ''/stateful_working_dir'')"
proof (intro conjI impI allI)
  let ?r = "init_OutputsResolver node info_id root run_id"
  let ?P = "path_join root [node_info_id node, run_id, STATEFUL_WORKING_DIR]"
  have P: "path_join (node_dir ?r) [pipeline_run_id ?r, STATEFUL_WORKING_DIR] = ?P"
    by (simp add: init_OutputsResolver_def path_join_def)
  have "?P = join2 (path_join root [node_info_id node, run_id]) STATEFUL_WORKING_DIR"
    by (simp add: path_join_def)
  then have ne: "?P \<noteq> []"
    by (simp add: join2_def STATEFUL_WORKING_DIR_def)
  have ok: "\<exists>w'. get_stateful_working_directory ?r v = Inr (?P, w')
      \<and> isdir (files w') (split_path (cwd v) ?P)"
    if nb: "\<not> blocked (files v) (split_path (cwd v) ?P)" for v
  proof -
    let ?fs = "\<lambda>q. if prefix q (split_path (cwd v) ?P) then Some Dir else files v q"
    have mk: "makedirs (files v) (split_path (cwd v) ?P) = Inr ?fs" using nb by (rule makedirs_ok)
    have "get_stateful_working_directory ?r v = Inr (?P, v\<lparr>files := ?fs\<rparr>)"
      by (simp add: get_stateful_working_directory_def P gfile_makedirs_nonempty[OF ne] mk Let_def)
    moreover have "isdir (files (v\<lparr>files := ?fs\<rparr>)) (split_path (cwd v) ?P)"
      by (simp add: isdir_def)
    ultimately show ?thesis by blast
  qed
  {
    assume "\<not> blocked (files w) (split_path (cwd w) ?P)"
    then show "\<exists>w'. get_stateful_working_directory ?r w = Inr (?P, w')
        \<and> isdir (files w') (split_path (cwd w) ?P)" by (rule ok)
  }
  {
    assume "blocked (files w) (split_path (cwd w) ?P)"
    then show "get_stateful_working_directory ?r w = Inl OpError"
      by (simp add: get_stateful_working_directory_def P gfile_makedirs_nonempty[OF ne]
            makedirs_blocked Let_def)
  }
  {
    fix e u w1
    assume a: "\<not> blocked (files w) (split_path (cwd w) ?P) \<and>
        get_executor_output_uri ?r e w = Inr (u, w1)"
    have "path_join (node_dir ?r) [EXECUTION_PREFIX @ str_int e] \<noteq> []"
      using plain_dir_execution_dir[of "node_dir ?r" e] by (simp add: plain_dir_def)
    with a obtain fs' where
      mk: "makedirs (files w)
             (split_path (cwd w) (path_join (node_dir ?r) [EXECUTION_PREFIX @ str_int e])) = Inr fs'"
      and w1: "files w1 = fs'" and c1: "cwd w1 = cwd w"
      by (auto simp: get_executor_output_uri_def gfile_makedirs_nonempty Let_def split: sum.splits)
    from a makedirs_not_blocked[OF mk] w1 c1
    have "\<not> blocked (files w1) (split_path (cwd w1) ?P)" by simp
    from ok[OF this] show "\<exists>w2. get_stateful_working_directory ?r w1 = Inr (?P, w2)" by blast
  }
  {
    assume "plain_dir root \<and> plain_segment (node_info_id node) \<and> plain_segment run_id"
    then show "?P = root @ ''/'' @ node_info_id node @ ''/'' @ run_id @ ''/stateful_working_dir''"
      by (simp add: path_join_plain3 relative_def STATEFUL_WORKING_DIR_def)
  }
qed

lemma ccwd_examples: "cwd empty_world = []" "cwd (file_world p contents) = []"
  by (simp_all add: empty_world_def file_world_def)

lemma split_path_execution_7:
  "split_path [] ''gs://bucket/pipe/Trainer/execution_7'' =
     [''gs:'', ''bucket'', ''pipe'', ''Trainer'', ''execution_7'']"
  by (simp add: split_path_def)

lemma split_path_stateful:
  "split_path [] ''gs://bucket/pipe/Trainer/run1/stateful_working_dir'' =
     [''gs:'', ''bucket'', ''pipe'', ''Trainer'', ''run1'', ''stateful_working_dir'']"
  by (simp add: split_path_def)

text \<open>On an empty filesystem the call returns the path of the running example and makes
  the directory; with a file at \<^verbatim>\<open>gs://bucket\<close> it raises.\<close>

theorem executor_output_uri_witness:
  "(\<exists>w'. get_executor_output_uri (example_resolver []) 7 empty_world =
           Inr (''gs://bucket/pipe/Trainer/execution_7/executor_output.pb'', w')
         \<and> isdir (files w') [''gs:'', ''bucket'', ''pipe'', ''Trainer'', ''execution_7''])
   \<and> get_executor_output_uri (example_resolver []) 7 (file_world [''gs:'', ''bucket''] ''x'') =
       Inl OpError"
proof -
  let ?node = "\<lparr>node_info_id = ''Trainer'', outputs = []\<rparr>"
  have E: "path_join ''gs://bucket/pipe'' [node_info_id ?node, EXECUTION_PREFIX @ str_int 7] =
      ''gs://bucket/pipe/Trainer/execution_7''"
    by (simp add: path_join_def join2_def EXECUTION_PREFIX_def str_int_7)
  have U: "path_join ''gs://bucket/pipe''
      [node_info_id ?node, EXECUTION_PREFIX @ str_int 7, EXECUTION_OUTPUT_FILE] =
      ''gs://bucket/pipe/Trainer/execution_7/executor_output.pb''"
    by (simp add: path_join_def join2_def EXECUTION_PREFIX_def str_int_7 EXECUTION_OUTPUT_FILE_def)
  have free: "\<not> blocked (files empty_world)
      [''gs:'', ''bucket'', ''pipe'', ''Trainer'', ''execution_7'']"
    by (simp add: blocked_def empty_world_def is_file_def)
  have busy: "blocked (files (file_world [''gs:'', ''bucket''] ''x''))
      [''gs:'', ''bucket'', ''pipe'', ''Trainer'', ''execution_7'']"
    by (simp add: blocked_def file_world_def is_file_def)
  from executor_output_uri[where w = empty_world and root = "''gs://bucket/pipe''"
      and node = ?node and e = 7 and info_id = "''pipe1''" and run_id = "''run1''"]
    executor_output_uri[where w = "file_world [''gs:'', ''bucket''] ''x''"
      and root = "''gs://bucket/pipe''"
      and node = ?node and e = 7 and info_id = "''pipe1''" and run_id = "''run1''"]
    free busy
  show ?thesis
    unfolding E U ccwd_examples split_path_execution_7 example_resolver_def by blast
qed

text \<open>The running example, on an empty filesystem and with a file in the way.\<close>

theorem stateful_working_directory_path_witness:
  "(\<exists>w'. get_stateful_working_directory (example_resolver []) empty_world =
           Inr (''gs://bucket/pipe/Trainer/run1/stateful_working_dir'', w')
         \<and> isdir (files w')
             [''gs:'', ''bucket'', ''pipe'', ''Trainer'', ''run1'', ''stateful_working_dir''])
   \<and> get_stateful_working_directory (example_resolver []) (file_world [''gs:'', ''bucket''] ''x'') =
       Inl OpError"
proof -
  let ?node = "\<lparr>node_info_id = ''Trainer'', outputs = []\<rparr>"
  have P: "path_join ''gs://bucket/pipe'' [node_info_id ?node, ''run1'', STATEFUL_WORKING_DIR] =
      ''gs://bucket/pipe/Trainer/run1/stateful_working_dir''"
    by (simp add: path_join_def join2_def STATEFUL_WORKING_DIR_def)
  have free: "\<not> blocked (files empty_world)
      [''gs:'', ''bucket'', ''pipe'', ''Trainer'', ''run1'', ''stateful_working_dir'']"
    by (simp add: blocked_def empty_world_def is_file_def)
  have busy: "blocked (files (file_world [''gs:'', ''bucket''] ''x''))
      [''gs:'', ''bucket'', ''pipe'', ''Trainer'', ''run1'', ''stateful_working_dir'']"
    by (simp add: blocked_def file_world_def is_file_def)
  from stateful_working_directory_path[where w = empty_world and root = "''gs://bucket/pipe''"
      and node = ?node and info_id = "''pipe1''" and run_id = "''run1''"]
    stateful_working_directory_path[where w = "file_world [''gs:'', ''bucket''] ''x''"
      and root = "''gs://bucket/pipe''"
      and node = ?node and info_id = "''pipe1''" and run_id = "''run1''"]
    free busy
  show ?thesis
    unfolding P ccwd_examples split_path_stateful example_resolver_def by blast
qed

section \<open>Properties: creating the output storage\<close>

lemma write_empty_Inr_iff:
  "write_empty fs p = Inr fs' \<longleftrightarrow>
     p \<noteq> [] \<and> fs p \<noteq> Some Dir \<and> fs (butlast p) = Some Dir \<and> fs' = fs(p \<mapsto> File [])"
  by (auto simp: write_empty_def)

lemma gfile_write_empty_Inr:
  assumes "gfile_write_empty wd fs p = Inr fs'"
  shows "p \<noteq> []" and "fs (split_path wd p) \<noteq> Some Dir"
    and "fs' = fs(split_path wd p \<mapsto> File [])"
    and "\<not> slash_last p" and "\<not> dot_last p"
  using assms
  by (auto simp: gfile_write_empty_def resolve_def write_empty_Inr_iff split: if_splits)

lemma gfile_makedirs_keeps:
  "gfile_makedirs wd fs p = Inr fs' \<Longrightarrow> fs q = Some n \<Longrightarrow> fs' q = Some n"
  by (cases "p = []") (auto simp: gfile_makedirs_empty gfile_makedirs_nonempty dest: makedirs_keeps)

lemma make_one_value:
  assumes "make_one wd fs a = (None, fs')" and "cls a = ValueArtifact"
  shows "uri a \<noteq> []" and "fs' (artifact_path wd a) = Some (File [])"
    and "\<not> slash_last (uri a)"
proof -
  from assms obtain fs1 where
    w: "gfile_write_empty wd fs1 (uri a) = Inr fs'"
    by (auto simp: make_one_def isinstance_ValueArtifact_def split: sum.splits)
  from gfile_write_empty_Inr[OF w] show "uri a \<noteq> []"
    and "fs' (artifact_path wd a) = Some (File [])" and "\<not> slash_last (uri a)"
    by (simp_all add: artifact_path_def)
qed

lemma make_one_dir:
  assumes "make_one wd fs a = (None, fs')" and "cls a \<noteq> ValueArtifact" and "uri a \<noteq> []"
  shows "fs' (artifact_path wd a) = Some Dir"
  using assms
  by (auto simp: make_one_def isinstance_ValueArtifact_def artifact_path_def
      gfile_makedirs_nonempty makedirs_Inr_iff split: sum.splits)

lemma make_one_frame:
  assumes "make_one wd fs a = (x, fs')" and "fs q = Some n"
    and "cls a = ValueArtifact \<longrightarrow> q \<noteq> artifact_path wd a \<or> n = File []"
  shows "fs' q = Some n"
proof (cases "isinstance_ValueArtifact a")
  case False
  with assms show ?thesis
    by (auto simp: make_one_def split: sum.splits dest: gfile_makedirs_keeps)
next
  case True
  then have other: "q \<noteq> split_path wd (uri a) \<or> n = File []"
    using assms(3) by (simp add: isinstance_ValueArtifact_def artifact_path_def)
  show ?thesis
  proof (cases "gfile_makedirs wd fs (dirname (uri a))")
    case (Inl e)
    with True assms show ?thesis by (simp add: make_one_def)
  next
    case (Inr fs1)
    then have d1: "fs1 q = Some n" using assms(2) by (rule gfile_makedirs_keeps)
    show ?thesis
    proof (cases "gfile_write_empty wd fs1 (uri a)")
      case (Inl e)
      with True Inr assms d1 show ?thesis by (simp add: make_one_def)
    next
      case r2: (Inr fs2)
      from gfile_write_empty_Inr(3)[OF r2] d1 other have "fs2 q = Some n" by auto
      with True Inr r2 assms show ?thesis by (simp add: make_one_def)
    qed
  qed
qed

lemma make_one_keeps_dir:
  assumes "make_one wd fs a = (x, fs')" and "fs q = Some Dir"
  shows "fs' q = Some Dir"
proof (cases "isinstance_ValueArtifact a")
  case False
  with assms show ?thesis
    by (auto simp: make_one_def split: sum.splits dest: gfile_makedirs_keeps)
next
  case True
  show ?thesis
  proof (cases "gfile_makedirs wd fs (dirname (uri a))")
    case (Inl e)
    with True assms show ?thesis by (simp add: make_one_def)
  next
    case (Inr fs1)
    then have d1: "fs1 q = Some Dir" using assms(2) by (rule gfile_makedirs_keeps)
    show ?thesis
    proof (cases "gfile_write_empty wd fs1 (uri a)")
      case (Inl e)
      with True Inr assms d1 show ?thesis by (simp add: make_one_def)
    next
      case r2: (Inr fs2)
      from gfile_write_empty_Inr(2,3)[OF r2] d1 have "fs2 q = Some Dir" by auto
      with True Inr r2 assms show ?thesis by (simp add: make_one_def)
    qed
  qed
qed

lemma make_list_keeps_dir:
  "make_list wd fs as = (x, fs') \<Longrightarrow> fs q = Some Dir \<Longrightarrow> fs' q = Some Dir"
proof (induction as arbitrary: fs)
  case Nil
  then show ?case by simp
next
  case (Cons a as)
  obtain y fs1 where m: "make_one wd fs a = (y, fs1)" by (cases "make_one wd fs a")
  from make_one_keeps_dir[OF m Cons.prems(2)] have "fs1 q = Some Dir" .
  with Cons m show ?case by (cases y) auto
qed

lemma make_list_frame:
  "make_list wd fs as = (x, fs') \<Longrightarrow> fs q = Some n \<Longrightarrow>
   \<forall>a \<in> set as. cls a = ValueArtifact \<longrightarrow> q \<noteq> artifact_path wd a \<or> n = File [] \<Longrightarrow>
   fs' q = Some n"
proof (induction as arbitrary: fs)
  case Nil
  then show ?case by simp
next
  case (Cons a as)
  obtain y fs1 where m: "make_one wd fs a = (y, fs1)" by (cases "make_one wd fs a")
  from Cons.prems(3) have "cls a = ValueArtifact \<longrightarrow> q \<noteq> artifact_path wd a \<or> n = File []"
    by simp
  from make_one_frame[OF m Cons.prems(2) this] have "fs1 q = Some n" .
  with Cons m show ?case by (cases y) auto
qed

lemma make_list_keeps_empty_file:
  assumes "make_list wd fs as = (x, fs')" and "fs q = Some (File [])"
  shows "fs' q = Some (File [])"
  using make_list_frame[OF assms] by simp

lemma make_list_made_value:
  "make_list wd fs as = (None, fs') \<Longrightarrow> a \<in> set as \<Longrightarrow> cls a = ValueArtifact \<Longrightarrow>
   uri a \<noteq> [] \<and> fs' (artifact_path wd a) = Some (File []) \<and> \<not> slash_last (uri a)"
proof (induction as arbitrary: fs)
  case Nil
  then show ?case by simp
next
  case (Cons b as)
  obtain y fs1 where m: "make_one wd fs b = (y, fs1)" by (cases "make_one wd fs b")
  with Cons.prems(1) have y: "y = None" and rest: "make_list wd fs1 as = (None, fs')"
    by (cases y; simp)+
  show ?case
  proof (cases "a \<in> set as")
    case True
    from Cons.IH[OF rest True Cons.prems(3)] show ?thesis .
  next
    case False
    with Cons.prems(2) have ab: "a = b" by simp
    from m y ab have one: "make_one wd fs a = (None, fs1)" by simp
    from make_one_value[OF one Cons.prems(3)]
    have ne: "uri a \<noteq> []" and f1: "fs1 (artifact_path wd a) = Some (File [])"
      and ns: "\<not> slash_last (uri a)" .
    from make_list_keeps_empty_file[OF rest f1] ne ns show ?thesis by simp
  qed
qed

lemma make_list_made_dir:
  "make_list wd fs as = (None, fs') \<Longrightarrow> a \<in> set as \<Longrightarrow> cls a \<noteq> ValueArtifact \<Longrightarrow>
   uri a \<noteq> [] \<Longrightarrow> fs' (artifact_path wd a) = Some Dir"
proof (induction as arbitrary: fs)
  case Nil
  then show ?case by simp
next
  case (Cons b as)
  obtain y fs1 where m: "make_one wd fs b = (y, fs1)" by (cases "make_one wd fs b")
  with Cons.prems(1) have y: "y = None" and rest: "make_list wd fs1 as = (None, fs')"
    by (cases y; simp)+
  show ?case
  proof (cases "a \<in> set as")
    case True
    from Cons.IH[OF rest True Cons.prems(3,4)] show ?thesis .
  next
    case False
    with Cons.prems(2) have ab: "a = b" by simp
    from m y ab have one: "make_one wd fs a = (None, fs1)" by simp
    from make_one_dir[OF one Cons.prems(3,4)] have "fs1 (artifact_path wd a) = Some Dir" .
    from make_list_keeps_dir[OF rest this] show ?thesis .
  qed
qed

lemma make_list_append:
  "make_list wd fs (xs @ ys) =
     (case make_list wd fs xs of
        (Some e, fs') \<Rightarrow> (Some e, fs')
      | (None, fs') \<Rightarrow> make_list wd fs' ys)"
proof (induction xs arbitrary: fs)
  case Nil
  then show ?case by simp
next
  case (Cons a xs)
  obtain y fs1 where m: "make_one wd fs a = (y, fs1)" by (cases "make_one wd fs a")
  with Cons show ?case by (cases y) auto
qed

lemma make_output_dirs_flat: "make_output_dirs wd d fs = make_list wd fs (all_artifacts d)"
proof (induction wd d fs rule: make_output_dirs.induct)
  case (1 wd fs)
  then show ?case by (simp add: all_artifacts_def)
next
  case (2 wd k artifact_list d fs)
  obtain y fs1 where m: "make_list wd fs artifact_list = (y, fs1)"
    by (cases "make_list wd fs artifact_list")
  have flat: "all_artifacts ((k, artifact_list) # d) = artifact_list @ all_artifacts d"
    by (simp add: all_artifacts_def)
  show ?case
  proof (cases y)
    case None
    with m 2 show ?thesis by (simp add: flat make_list_append)
  next
    case (Some e)
    with m show ?thesis by (simp add: flat make_list_append)
  qed
qed

text \<open>
  Claim C10: when \<^verbatim>\<open>make_output_dirs\<close> returns, every value artifact of the dictionary
  has an empty file at its uri, whatever was there before, and every other artifact with
  a uri that names a node has a directory there. Nothing else that existed is changed: a
  directory is still a directory, and an entry of the filesystem that is not the node of
  one of the value artifacts is afterwards what it was before, so the contents of the
  directories are left as they were.
\<close>

theorem make_output_dirs_value_files_empty:
  assumes "make_output_dirs wd output_dict fs = (None, fs')"
  shows "(\<forall>a \<in> set (all_artifacts output_dict).
            cls a = ValueArtifact \<longrightarrow>
            uri a \<noteq> [] \<and> fs' (artifact_path wd a) = Some (File []))
       \<and> (\<forall>a \<in> set (all_artifacts output_dict).
            cls a \<noteq> ValueArtifact \<and> uri a \<noteq> [] \<longrightarrow> fs' (artifact_path wd a) = Some Dir)
       \<and> (\<forall>q. fs q = Some Dir \<longrightarrow> fs' q = Some Dir)
       \<and> (\<forall>q n. fs q = Some n \<and>
            (\<forall>a \<in> set (all_artifacts output_dict).
               cls a = ValueArtifact \<longrightarrow> q \<noteq> artifact_path wd a) \<longrightarrow> fs' q = Some n)"
proof -
  from assms have m: "make_list wd fs (all_artifacts output_dict) = (None, fs')"
    by (simp add: make_output_dirs_flat)
  have "\<forall>q n. fs q = Some n \<and>
            (\<forall>a \<in> set (all_artifacts output_dict).
               cls a = ValueArtifact \<longrightarrow> q \<noteq> artifact_path wd a) \<longrightarrow> fs' q = Some n"
    using make_list_frame[OF m] by blast
  moreover have "\<forall>q. fs q = Some Dir \<longrightarrow> fs' q = Some Dir"
    using make_list_keeps_dir[OF m] by blast
  ultimately show ?thesis
    using make_list_made_value[OF m] make_list_made_dir[OF m] by blast
qed

lemma example_nodes:
  "split_path [''work''] ''out/accuracy/value'' = [''work'', ''out'', ''accuracy'', ''value'']"
  "split_path [''work''] ''out/accuracy'' = [''work'', ''out'', ''accuracy'']"
  "split_path [''work''] ''out/model'' = [''work'', ''out'', ''model'']"
  "split_path [''work''] ''out/a'' = [''work'', ''out'', ''a'']"
  "split_path [''work''] ''out/a/b'' = [''work'', ''out'', ''a'', ''b'']"
  "split_path [''work''] ''out/c'' = [''work'', ''out'', ''c'']"
  by (simp_all add: split_path_def)

lemma example_dirname: "dirname ''out/accuracy/value'' = ''out/accuracy''"
  by (simp add: dirname_def rstrip_sep_def Let_def)

lemma example_last:
  "\<not> slash_last ''out/accuracy/value''" "\<not> dot_last ''out/accuracy/value''"
  "\<not> dot_last ''out/model''"
  "\<not> slash_last ''out/a/b''" "\<not> dot_last ''out/a/b''"
  "\<not> dot_last ''out/a''" "\<not> dot_last ''out/c''"
  by (simp_all add: slash_last_def dot_last_def Let_def)


lemmas storage_eval =
  make_one_def remove_one_def gfile_makedirs_def gfile_write_empty_def gfile_isdir_def
  gfile_rmtree_def gfile_remove_def resolve_def makedirs_def write_empty_def remove_file_def
  isdir_def is_file_def fs_of_def value_artifact_def dir_artifact_def
  isinstance_ValueArtifact_def example_nodes example_dirname example_last

lemma example_make:
  "fst (make_output_dirs [''work''] example_outputs example_fs) = None"
  by (simp add: example_outputs_def example_fs_def storage_eval)

text \<open>With the working directory \<^verbatim>\<open>/work\<close>: a value file holding \<^verbatim>\<open>0.93\<close> is emptied,
  while the file already inside the directory artifact's directory keeps its contents.\<close>

theorem make_output_dirs_value_files_empty_witness:
  "example_fs [''work'', ''out'', ''accuracy'', ''value''] = Some (File ''0.93'')
   \<and> fst (make_output_dirs [''work''] example_outputs example_fs) = None
   \<and> snd (make_output_dirs [''work''] example_outputs example_fs)
         [''work'', ''out'', ''accuracy'', ''value''] = Some (File [])
   \<and> snd (make_output_dirs [''work''] example_outputs example_fs)
         [''work'', ''out'', ''model''] = Some Dir
   \<and> snd (make_output_dirs [''work''] example_outputs example_fs)
         [''work'', ''out'', ''model'', ''weights''] = Some (File ''w'')"
proof -
  have m: "make_output_dirs [''work''] example_outputs example_fs =
      (None, snd (make_output_dirs [''work''] example_outputs example_fs))"
    using example_make by (simp add: prod_eq_iff)
  have before: "example_fs [''work'', ''out'', ''accuracy'', ''value''] = Some (File ''0.93'')"
    "example_fs [''work'', ''out'', ''model'', ''weights''] = Some (File ''w'')"
    by (simp_all add: example_fs_def fs_of_def)
  have arts: "all_artifacts example_outputs =
      [value_artifact ''out/accuracy/value'', dir_artifact ''out/model'']"
    by (simp add: example_outputs_def all_artifacts_def)
  have paths:
    "artifact_path [''work''] (value_artifact ''out/accuracy/value'') =
       [''work'', ''out'', ''accuracy'', ''value'']"
    "artifact_path [''work''] (dir_artifact ''out/model'') = [''work'', ''out'', ''model'']"
    by (simp_all add: artifact_path_def example_nodes value_artifact_def dir_artifact_def)
  have kinds: "cls (value_artifact ''out/accuracy/value'') = ValueArtifact"
    "cls (dir_artifact ''out/model'') = Artifact"
    "uri (dir_artifact ''out/model'') \<noteq> []"
    by (simp_all add: value_artifact_def dir_artifact_def)
  from make_output_dirs_value_files_empty[OF m] before example_make
  show ?thesis
    by (simp add: arts paths kinds)
qed

section \<open>Properties: removing the output storage\<close>














section \<open>Properties: the filesystem registry\<close>

lemma register_schemes_pointwise:
  assumes "\<forall>s cur. preferred_filesystem_by_scheme reg s = Some cur \<longrightarrow>
             filesystem_priority reg cur \<noteq> None"
    and "filesystem_priority reg c \<noteq> None"
  shows "\<exists>reg'. register_schemes reg c p ss = Inr reg'
     \<and> filesystem_priority reg' = filesystem_priority reg
     \<and> (\<forall>s. preferred_filesystem_by_scheme reg' s =
          (if s \<in> set ss \<and>
              (preferred_filesystem_by_scheme reg s = None \<or>
               (\<exists>cur pc. preferred_filesystem_by_scheme reg s = Some cur \<and>
                  filesystem_priority reg cur = Some pc \<and> p < pc))
           then Some c else preferred_filesystem_by_scheme reg s))"
  using assms
proof (induction ss arbitrary: reg)
  case Nil
  then show ?case by simp
next
  case (Cons x ss)
  let ?set = "reg\<lparr>preferred_filesystem_by_scheme :=
                   (preferred_filesystem_by_scheme reg)(x \<mapsto> c)\<rparr>"
  have set_ok: "\<forall>s cur. preferred_filesystem_by_scheme ?set s = Some cur \<longrightarrow>
             filesystem_priority ?set cur \<noteq> None"
    using Cons.prems by auto
  have set_c: "filesystem_priority ?set c \<noteq> None" using Cons.prems by simp
  from Cons.prems(2) obtain p0 where p0: "filesystem_priority reg c = Some p0" by blast
  show ?case
  proof (cases "preferred_filesystem_by_scheme reg x")
    case None
    from Cons.IH[OF set_ok set_c] obtain reg' where
      r: "register_schemes ?set c p ss = Inr reg'"
      and fp: "filesystem_priority reg' = filesystem_priority ?set"
      and pw: "\<forall>s. preferred_filesystem_by_scheme reg' s =
          (if s \<in> set ss \<and>
              (preferred_filesystem_by_scheme ?set s = None \<or>
               (\<exists>cur pc. preferred_filesystem_by_scheme ?set s = Some cur \<and>
                  filesystem_priority ?set cur = Some pc \<and> p < pc))
           then Some c else preferred_filesystem_by_scheme ?set s)"
      by blast
    have "register_schemes reg c p (x # ss) = Inr reg'" using None r by simp
    moreover have "filesystem_priority reg' = filesystem_priority reg" using fp by simp
    moreover have "\<forall>s. preferred_filesystem_by_scheme reg' s =
          (if s \<in> set (x # ss) \<and>
              (preferred_filesystem_by_scheme reg s = None \<or>
               (\<exists>cur pc. preferred_filesystem_by_scheme reg s = Some cur \<and>
                  filesystem_priority reg cur = Some pc \<and> p < pc))
           then Some c else preferred_filesystem_by_scheme reg s)"
      using pw None by (auto simp: p0)
    ultimately show ?thesis by blast
  next
    case (Some cur)
    with Cons.prems(1) obtain pc where pc: "filesystem_priority reg cur = Some pc" by blast
    show ?thesis
    proof (cases "p < pc")
      case True
      from Cons.IH[OF set_ok set_c] obtain reg' where
        r: "register_schemes ?set c p ss = Inr reg'"
        and fp: "filesystem_priority reg' = filesystem_priority ?set"
        and pw: "\<forall>s. preferred_filesystem_by_scheme reg' s =
          (if s \<in> set ss \<and>
              (preferred_filesystem_by_scheme ?set s = None \<or>
               (\<exists>cur pc. preferred_filesystem_by_scheme ?set s = Some cur \<and>
                  filesystem_priority ?set cur = Some pc \<and> p < pc))
           then Some c else preferred_filesystem_by_scheme ?set s)"
        by blast
      have "register_schemes reg c p (x # ss) = Inr reg'" using Some pc True r by simp
      moreover have "filesystem_priority reg' = filesystem_priority reg" using fp by simp
      moreover have "\<forall>s. preferred_filesystem_by_scheme reg' s =
          (if s \<in> set (x # ss) \<and>
              (preferred_filesystem_by_scheme reg s = None \<or>
               (\<exists>cur pc. preferred_filesystem_by_scheme reg s = Some cur \<and>
                  filesystem_priority reg cur = Some pc \<and> p < pc))
           then Some c else preferred_filesystem_by_scheme reg s)"
        using pw Some pc True by (auto simp: p0)
      ultimately show ?thesis by blast
    next
      case False
      from Cons.IH[OF Cons.prems] obtain reg' where
        r: "register_schemes reg c p ss = Inr reg'"
        and fp: "filesystem_priority reg' = filesystem_priority reg"
        and pw: "\<forall>s. preferred_filesystem_by_scheme reg' s =
          (if s \<in> set ss \<and>
              (preferred_filesystem_by_scheme reg s = None \<or>
               (\<exists>cur pc. preferred_filesystem_by_scheme reg s = Some cur \<and>
                  filesystem_priority reg cur = Some pc \<and> p < pc))
           then Some c else preferred_filesystem_by_scheme reg s)"
        by blast
      have "register_schemes reg c p (x # ss) = Inr reg'" using Some pc False r by simp
      moreover have "\<forall>s. preferred_filesystem_by_scheme reg' s =
          (if s \<in> set (x # ss) \<and>
              (preferred_filesystem_by_scheme reg s = None \<or>
               (\<exists>cur pc. preferred_filesystem_by_scheme reg s = Some cur \<and>
                  filesystem_priority reg cur = Some pc \<and> p < pc))
           then Some c else preferred_filesystem_by_scheme reg s)"
        using pw Some pc False by auto
      ultimately show ?thesis using fp by blast
    qed
  qed
qed

lemma register_pointwise:
  assumes "keyed reg"
  shows "\<exists>reg'. register reg c p = Inr reg'
     \<and> filesystem_priority reg' = (filesystem_priority reg)(c \<mapsto> p)
     \<and> (\<forall>s. preferred_filesystem_by_scheme reg' s =
          (if s \<in> set (SUPPORTED_SCHEMES c) \<and>
              (preferred_filesystem_by_scheme reg s = None \<or>
               (\<exists>cur pc. preferred_filesystem_by_scheme reg s = Some cur \<and>
                  ((filesystem_priority reg)(c \<mapsto> p)) cur = Some pc \<and> p < pc))
           then Some c else preferred_filesystem_by_scheme reg s))"
proof -
  let ?reg1 = "reg\<lparr>filesystem_priority := (filesystem_priority reg)(c \<mapsto> p)\<rparr>"
  have a: "\<forall>s cur. preferred_filesystem_by_scheme ?reg1 s = Some cur \<longrightarrow>
             filesystem_priority ?reg1 cur \<noteq> None"
    using assms by (auto simp: keyed_def)
  have b: "filesystem_priority ?reg1 c \<noteq> None" by simp
  from register_schemes_pointwise[OF a b, of p "SUPPORTED_SCHEMES c"] obtain reg' where
    r: "register_schemes ?reg1 c p (SUPPORTED_SCHEMES c) = Inr reg'"
    and fp: "filesystem_priority reg' = filesystem_priority ?reg1"
    and pw: "\<forall>s. preferred_filesystem_by_scheme reg' s =
          (if s \<in> set (SUPPORTED_SCHEMES c) \<and>
              (preferred_filesystem_by_scheme ?reg1 s = None \<or>
               (\<exists>cur pc. preferred_filesystem_by_scheme ?reg1 s = Some cur \<and>
                  filesystem_priority ?reg1 cur = Some pc \<and> p < pc))
           then Some c else preferred_filesystem_by_scheme ?reg1 s)"
    by blast
  have sel: "preferred_filesystem_by_scheme ?reg1 = preferred_filesystem_by_scheme reg"
    "filesystem_priority ?reg1 = (filesystem_priority reg)(c \<mapsto> p)"
    by simp_all
  from r have "register reg c p = Inr reg'" by (simp add: register_def)
  moreover from fp have "filesystem_priority reg' = (filesystem_priority reg)(c \<mapsto> p)"
    unfolding sel .
  moreover from pw have "\<forall>s. preferred_filesystem_by_scheme reg' s =
          (if s \<in> set (SUPPORTED_SCHEMES c) \<and>
              (preferred_filesystem_by_scheme reg s = None \<or>
               (\<exists>cur pc. preferred_filesystem_by_scheme reg s = Some cur \<and>
                  ((filesystem_priority reg)(c \<mapsto> p)) cur = Some pc \<and> p < pc))
           then Some c else preferred_filesystem_by_scheme reg s)"
    unfolding sel .
  ultimately show ?thesis by blast
qed

lemma register_keyed:
  assumes "keyed reg"
  shows "\<exists>reg'. register reg c p = Inr reg' \<and> keyed reg'
     \<and> (\<forall>s. preferred_filesystem_by_scheme reg' s \<noteq> None \<longleftrightarrow>
          preferred_filesystem_by_scheme reg s \<noteq> None \<or> s \<in> set (SUPPORTED_SCHEMES c))"
proof -
  from register_pointwise[OF assms, of c p] obtain reg' where
    r: "register reg c p = Inr reg'"
    and fp: "filesystem_priority reg' = (filesystem_priority reg)(c \<mapsto> p)"
    and pw: "\<forall>s. preferred_filesystem_by_scheme reg' s =
          (if s \<in> set (SUPPORTED_SCHEMES c) \<and>
              (preferred_filesystem_by_scheme reg s = None \<or>
               (\<exists>cur pc. preferred_filesystem_by_scheme reg s = Some cur \<and>
                  ((filesystem_priority reg)(c \<mapsto> p)) cur = Some pc \<and> p < pc))
           then Some c else preferred_filesystem_by_scheme reg s)"
    by blast
  have "keyed reg'"
    unfolding keyed_def
  proof (intro allI impI)
    fix s cur
    assume "preferred_filesystem_by_scheme reg' s = Some cur"
    then have "cur = c \<or> preferred_filesystem_by_scheme reg s = Some cur"
      using pw by (auto split: if_splits)
    then show "filesystem_priority reg' cur \<noteq> None"
      using assms fp by (auto simp: keyed_def)
  qed
  moreover have "\<forall>s. preferred_filesystem_by_scheme reg' s \<noteq> None \<longleftrightarrow>
          preferred_filesystem_by_scheme reg s \<noteq> None \<or> s \<in> set (SUPPORTED_SCHEMES c)"
    using pw by auto
  ultimately show ?thesis using r by blast
qed

lemma register_all_keyed:
  assumes "keyed reg"
  shows "\<exists>reg'. register_all reg calls = Inr reg' \<and> keyed reg'
     \<and> (\<forall>s. preferred_filesystem_by_scheme reg' s \<noteq> None \<longleftrightarrow>
          preferred_filesystem_by_scheme reg s \<noteq> None \<or>
          (\<exists>(c, p) \<in> set calls. s \<in> set (SUPPORTED_SCHEMES c)))"
  using assms
proof (induction calls arbitrary: reg)
  case Nil
  then show ?case by simp
next
  case (Cons call calls)
  obtain c p where call: "call = (c, p)" by (cases call)
  from register_keyed[OF Cons.prems, of c p] obtain reg1 where
    r1: "register reg c p = Inr reg1" and k1: "keyed reg1"
    and d1: "\<forall>s. preferred_filesystem_by_scheme reg1 s \<noteq> None \<longleftrightarrow>
          preferred_filesystem_by_scheme reg s \<noteq> None \<or> s \<in> set (SUPPORTED_SCHEMES c)"
    by blast
  from Cons.IH[OF k1] obtain reg' where
    r: "register_all reg1 calls = Inr reg'" and k: "keyed reg'"
    and d: "\<forall>s. preferred_filesystem_by_scheme reg' s \<noteq> None \<longleftrightarrow>
          preferred_filesystem_by_scheme reg1 s \<noteq> None \<or>
          (\<exists>(c, p) \<in> set calls. s \<in> set (SUPPORTED_SCHEMES c))"
    by blast
  have "register_all reg (call # calls) = Inr reg'" using r1 r call by simp
  moreover have "\<forall>s. preferred_filesystem_by_scheme reg' s \<noteq> None \<longleftrightarrow>
          preferred_filesystem_by_scheme reg s \<noteq> None \<or>
          (\<exists>(c, p) \<in> set (call # calls). s \<in> set (SUPPORTED_SCHEMES c))"
    using d d1 call by auto
  ultimately show ?case using k by blast
qed

lemma keyed_init: "keyed init_FilesystemRegistry"
  by (simp add: keyed_def init_FilesystemRegistry_def)

lemma registry_inv_keyed: "registry_inv calls reg \<Longrightarrow> keyed reg"
  unfolding registry_inv_def keyed_def by fastforce

lemma registry_inv_init: "registry_inv [] init_FilesystemRegistry"
  by (simp add: registry_inv_def init_FilesystemRegistry_def)

lemma register_inv_step:
  assumes inv: "registry_inv past reg"
    and con: "consistent_priorities (past @ [(c, p)])"
  shows "\<exists>reg'. register reg c p = Inr reg' \<and> registry_inv (past @ [(c, p)]) reg'"
proof -
  from inv have fp_done: "\<And>c' p'. (c', p') \<in> set past \<Longrightarrow> filesystem_priority reg c' = Some p'"
    and pref: "\<And>s cur. preferred_filesystem_by_scheme reg s = Some cur \<Longrightarrow>
         \<exists>pc. (cur, pc) \<in> set past \<and> s \<in> set (SUPPORTED_SCHEMES cur) \<and>
            (\<forall>(c', p') \<in> set past. s \<in> set (SUPPORTED_SCHEMES c') \<longrightarrow> pc \<le> p')"
    and total: "\<And>c' p' s. (c', p') \<in> set past \<Longrightarrow> s \<in> set (SUPPORTED_SCHEMES c') \<Longrightarrow>
         preferred_filesystem_by_scheme reg s \<noteq> None"
    unfolding registry_inv_def by blast+
  from con have same: "\<And>p'. (c, p') \<in> set past \<Longrightarrow> p' = p"
    unfolding consistent_priorities_def by simp
  from register_pointwise[OF registry_inv_keyed[OF inv], of c p] obtain reg' where
    r: "register reg c p = Inr reg'"
    and fp: "filesystem_priority reg' = (filesystem_priority reg)(c \<mapsto> p)"
    and pw: "\<And>s. preferred_filesystem_by_scheme reg' s =
          (if s \<in> set (SUPPORTED_SCHEMES c) \<and>
              (preferred_filesystem_by_scheme reg s = None \<or>
               (\<exists>cur pc. preferred_filesystem_by_scheme reg s = Some cur \<and>
                  ((filesystem_priority reg)(c \<mapsto> p)) cur = Some pc \<and> p < pc))
           then Some c else preferred_filesystem_by_scheme reg s)"
    by blast
  have A: "\<forall>(c', p') \<in> set (past @ [(c, p)]). filesystem_priority reg' c' = Some p'"
    using fp fp_done same by auto
  have B: "\<exists>pc. (cur, pc) \<in> set (past @ [(c, p)]) \<and> s \<in> set (SUPPORTED_SCHEMES cur) \<and>
            (\<forall>(c', p') \<in> set (past @ [(c, p)]). s \<in> set (SUPPORTED_SCHEMES c') \<longrightarrow> pc \<le> p')"
    if new: "preferred_filesystem_by_scheme reg' s = Some cur" for s cur
  proof (cases "s \<in> set (SUPPORTED_SCHEMES c) \<and>
              (preferred_filesystem_by_scheme reg s = None \<or>
               (\<exists>cur pc. preferred_filesystem_by_scheme reg s = Some cur \<and>
                  ((filesystem_priority reg)(c \<mapsto> p)) cur = Some pc \<and> p < pc))")
    case True
    with new pw[of s] have cur: "cur = c" by simp
    from True have s: "s \<in> set (SUPPORTED_SCHEMES c)" by simp
    have "p \<le> p'" if "(c', p') \<in> set past" "s \<in> set (SUPPORTED_SCHEMES c')" for c' p'
    proof -
      from total[OF that] obtain old where old: "preferred_filesystem_by_scheme reg s = Some old"
        by blast
      with True obtain pc where pc: "((filesystem_priority reg)(c \<mapsto> p)) old = Some pc" "p < pc"
        by auto
      then have "old \<noteq> c" by auto
      from pref[OF old] obtain po where po: "(old, po) \<in> set past"
        "\<forall>(c', p') \<in> set past. s \<in> set (SUPPORTED_SCHEMES c') \<longrightarrow> po \<le> p'" by blast
      from fp_done[OF po(1)] pc \<open>old \<noteq> c\<close> have "po = pc" by simp
      with po(2) that pc(2) show ?thesis by fastforce
    qed
    then show ?thesis using cur s by auto
  next
    case False
    have "preferred_filesystem_by_scheme reg' s = preferred_filesystem_by_scheme reg s"
      unfolding pw[of s] using False by (rule if_not_P)
    with new have old: "preferred_filesystem_by_scheme reg s = Some cur" by simp
    from pref[OF old] obtain pc where pc: "(cur, pc) \<in> set past" "s \<in> set (SUPPORTED_SCHEMES cur)"
      "\<forall>(c', p') \<in> set past. s \<in> set (SUPPORTED_SCHEMES c') \<longrightarrow> pc \<le> p'" by blast
    have "pc \<le> p" if s: "s \<in> set (SUPPORTED_SCHEMES c)"
    proof (cases "cur = c")
      case True
      with pc(1) same show ?thesis by auto
    next
      case ne: False
      from fp_done[OF pc(1)] ne have "((filesystem_priority reg)(c \<mapsto> p)) cur = Some pc" by simp
      with False s old have "\<not> p < pc" by blast
      then show ?thesis by simp
    qed
    with pc show ?thesis by auto
  qed
  have C: "\<forall>(c', p') \<in> set (past @ [(c, p)]). \<forall>s \<in> set (SUPPORTED_SCHEMES c').
         preferred_filesystem_by_scheme reg' s \<noteq> None"
    using total pw by auto
  from A B C have "registry_inv (past @ [(c, p)]) reg'"
    unfolding registry_inv_def by blast
  with r show ?thesis by blast
qed

lemma consistent_priorities_prefix:
  "consistent_priorities (xs @ ys) \<Longrightarrow> consistent_priorities xs"
  unfolding consistent_priorities_def by auto

lemma register_all_inv:
  assumes "registry_inv past reg" and "consistent_priorities (past @ calls)"
  shows "\<exists>reg'. register_all reg calls = Inr reg' \<and> registry_inv (past @ calls) reg'"
  using assms
proof (induction calls arbitrary: past reg)
  case Nil
  then show ?case by simp
next
  case (Cons call calls)
  obtain c p where call: "call = (c, p)" by (cases call)
  from Cons.prems(2) have con: "consistent_priorities ((past @ [(c, p)]) @ calls)"
    by (simp add: call)
  from register_inv_step[OF Cons.prems(1) consistent_priorities_prefix[OF con]]
  obtain reg1 where r1: "register reg c p = Inr reg1"
    and i1: "registry_inv (past @ [(c, p)]) reg1" by blast
  from Cons.IH[OF i1 con] obtain reg' where
    "register_all reg1 calls = Inr reg'" "registry_inv ((past @ [(c, p)]) @ calls) reg'" by blast
  with r1 call show ?case by simp
qed

lemma colon_not_scheme_char: "\<not> is_scheme_char CHR '':''"
  by (simp add: is_scheme_char_def)

lemma scheme_of_path_match:
  assumes "run \<noteq> []" and "\<forall>ch \<in> set run. is_scheme_char ch"
  shows "scheme_of_path (run @ ''://'' @ rest) = run @ ''://''"
proof -
  have t: "takeWhile is_scheme_char (run @ ''://'' @ rest) = run"
    using assms(2) colon_not_scheme_char by (induction run) auto
  have d: "dropWhile is_scheme_char (run @ ''://'' @ rest) = ''://'' @ rest"
    using assms(2) colon_not_scheme_char by (induction run) auto
  show ?thesis
    unfolding scheme_of_path_def match_scheme_def Let_def t d using assms(1) by simp
qed

lemma scheme_of_path_cases:
  "scheme_of_path path = [] \<or>
   (\<exists>run rest. run \<noteq> [] \<and> (\<forall>ch \<in> set run. is_scheme_char ch) \<and>
      path = run @ ''://'' @ rest \<and> scheme_of_path path = run @ ''://'')"
proof (cases "match_scheme path")
  case None
  then show ?thesis by (simp add: scheme_of_path_def)
next
  case (Some s)
  let ?run = "takeWhile is_scheme_char path"
  let ?rest = "dropWhile is_scheme_char path"
  from Some have ne: "?run \<noteq> []" and three: "take 3 ?rest = ''://''" and s: "s = ?run @ ''://''"
    by (auto simp: match_scheme_def Let_def split: if_splits)
  have "?rest = take 3 ?rest @ drop 3 ?rest" by simp
  with three have "?rest = ''://'' @ drop 3 ?rest" by metis
  then have "path = ?run @ ''://'' @ drop 3 ?rest"
    by (metis takeWhile_dropWhile_id)
  moreover have "\<forall>ch \<in> set ?run. is_scheme_char ch" by (auto dest: set_takeWhileD)
  moreover have "scheme_of_path path = ?run @ ''://''" using Some s by (simp add: scheme_of_path_def)
  ultimately show ?thesis using ne by blast
qed

lemma repr_char_plain:
  assumes "32 \<le> (of_char ch :: nat)" "(of_char ch :: nat) < 127" "ch \<noteq> CHR 0x27" "ch \<noteq> CHR 0x5C"
  shows "repr_char (CHR 0x27) ch = [ch]"
proof -
  have "ch \<noteq> CHR 0x09" "ch \<noteq> CHR 0x0A" "ch \<noteq> CHR 0x0D" using assms(1) by auto
  moreover have "printable ch" using assms(1,2) by (simp add: printable_def Let_def)
  ultimately show ?thesis using assms(3,4) by (simp add: repr_char_def)
qed

lemma repr_str_plain: "plain_text s \<Longrightarrow> repr_str s = [CHR 0x27] @ s @ [CHR 0x27]"
proof -
  assume p: "plain_text s"
  then have nq: "CHR 0x27 \<notin> set s" by (auto simp: plain_text_def)
  have "concat (map (repr_char (CHR 0x27)) s) = s"
    using p by (induction s) (auto simp: plain_text_def repr_char_plain)
  with nq show ?thesis by (simp add: repr_str_def Let_def)
qed

text \<open>
  Claim C9: after any sequence of register calls, \<^verbatim>\<open>get_filesystem_for_scheme\<close> raises
  for every scheme that no registered class declares, and the message carries the
  \<^verbatim>\<open>repr\<close> of the scheme; for a scheme of plain text that is the scheme itself, in
  single quotes. The register calls themselves never raise.
\<close>

theorem unsupported_scheme_raises:
  assumes "\<forall>(c, p) \<in> set calls. scheme \<notin> set (SUPPORTED_SCHEMES c)"
  shows "\<exists>reg. register_all init_FilesystemRegistry calls = Inr reg
     \<and> get_filesystem_for_scheme reg scheme = Inl (Exception (unavailable_message scheme))
     \<and> (plain_text scheme \<longrightarrow>
          unavailable_message scheme =
            ''The filesystem scheme '' @ [CHR 0x27] @ scheme @ [CHR 0x27] @
            '' is not available for use. For expanded filesystem scheme support, install the '' @
            [CHR 0x60] @ ''tensorflow'' @ [CHR 0x60] @
            '' package to enable additional filesystem plugins.'')"
proof -
  from register_all_keyed[OF keyed_init, of calls] obtain reg where
    r: "register_all init_FilesystemRegistry calls = Inr reg"
    and d: "\<forall>s. preferred_filesystem_by_scheme reg s \<noteq> None \<longleftrightarrow>
          preferred_filesystem_by_scheme init_FilesystemRegistry s \<noteq> None \<or>
          (\<exists>(c, p) \<in> set calls. s \<in> set (SUPPORTED_SCHEMES c))"
    by blast
  from d assms have "preferred_filesystem_by_scheme reg scheme = None"
    by (auto simp: init_FilesystemRegistry_def)
  then have "get_filesystem_for_scheme reg scheme = Inl (Exception (unavailable_message scheme))"
    by (simp add: get_filesystem_for_scheme_def)
  moreover have "plain_text scheme \<longrightarrow>
          unavailable_message scheme =
            ''The filesystem scheme '' @ [CHR 0x27] @ scheme @ [CHR 0x27] @
            '' is not available for use. For expanded filesystem scheme support, install the '' @
            [CHR 0x60] @ ''tensorflow'' @ [CHR 0x60] @
            '' package to enable additional filesystem plugins.''"
    by (simp add: unavailable_message_def repr_str_plain)
  ultimately show ?thesis using r by blast
qed

text \<open>With the \<^verbatim>\<open>gs://\<close> and the local scheme registered, a path of scheme
  \<^verbatim>\<open>s3://\<close> is refused with a message naming \<^verbatim>\<open>'s3://'\<close>.\<close>

theorem unsupported_scheme_raises_witness:
  "lookup_after [(gcs_filesystem, 10), (local_filesystem, 20)] ''s3://bucket/data'' =
     Inl (Exception (''The filesystem scheme '' @ [CHR 0x27] @ ''s3://'' @ [CHR 0x27] @
            '' is not available for use. For expanded filesystem scheme support, install the '' @
            [CHR 0x60] @ ''tensorflow'' @ [CHR 0x60] @
            '' package to enable additional filesystem plugins.''))"
proof -
  have no: "\<forall>(c, p) \<in> set [(gcs_filesystem, 10), (local_filesystem, 20)].
      ''s3://'' \<notin> set (SUPPORTED_SCHEMES c)"
    by (simp add: gcs_filesystem_def local_filesystem_def)
  have pt: "plain_text ''s3://''" by (simp add: plain_text_def)
  have sch: "scheme_of_path ''s3://bucket/data'' = ''s3://''"
    by (simp add: scheme_of_path_def match_scheme_def is_scheme_char_def Let_def)
  from unsupported_scheme_raises[OF no] pt obtain reg where
    "register_all init_FilesystemRegistry [(gcs_filesystem, 10), (local_filesystem, 20)] = Inr reg"
    "get_filesystem_for_scheme reg ''s3://'' =
       Inl (Exception (''The filesystem scheme '' @ [CHR 0x27] @ ''s3://'' @ [CHR 0x27] @
            '' is not available for use. For expanded filesystem scheme support, install the '' @
            [CHR 0x60] @ ''tensorflow'' @ [CHR 0x60] @
            '' package to enable additional filesystem plugins.''))"
    by auto
  then show ?thesis
    by (simp add: lookup_after_def get_filesystem_for_path_def sch)
qed

lemmas registry_eval =
  lookup_after_def priority_after_def register_def init_FilesystemRegistry_def
  get_filesystem_for_path_def get_filesystem_for_scheme_def scheme_of_path_def match_scheme_def
  is_scheme_char_def gcs_filesystem_def local_filesystem_def tf_filesystem_def alt_filesystem_def
  Let_def

text \<open>
  Claim C8, as stated, at a concrete sequence of register calls in which two classes are
  registered twice. The class returned for a \<^verbatim>\<open>gs://\<close> path holds priority 10 in the
  registry, while another class declaring \<^verbatim>\<open>gs://\<close> holds priority 5; and the lowest
  priority ever given in a call for the scheme, 2, belongs to a third class.
\<close>

theorem reregistered_preference:
  "lookup_after reregistered_calls ''gs://bucket/x'' = Inr gcs_filesystem
   \<and> priority_after reregistered_calls gcs_filesystem = Some 10
   \<and> priority_after reregistered_calls alt_filesystem = Some 5
   \<and> priority_after reregistered_calls tf_filesystem = Some 20"
  by (simp add: reregistered_calls_def registry_eval)

text \<open>
  Claim C8 (amended): for every sequence of register calls that gives each class one
  priority and every path whose scheme some registered class declares, the registry
  returns a registered class that declares the scheme and whose priority is not above
  that of any registered class declaring it. The scheme of a path is its prefix
  \<^verbatim>\<open>run://\<close> for a non-empty run of lower case letters and digits, and the empty
  scheme when the path has no such prefix.
\<close>

theorem preferred_has_lowest_priority:
  assumes "consistent_priorities calls"
    and "(c0, p0) \<in> set calls"
    and "scheme_of_path path \<in> set (SUPPORTED_SCHEMES c0)"
  shows "(\<exists>reg c p. register_all init_FilesystemRegistry calls = Inr reg
           \<and> get_filesystem_for_path reg path = Inr c
           \<and> (c, p) \<in> set calls
           \<and> scheme_of_path path \<in> set (SUPPORTED_SCHEMES c)
           \<and> (\<forall>(c', p') \<in> set calls.
                 scheme_of_path path \<in> set (SUPPORTED_SCHEMES c') \<longrightarrow> p \<le> p'))
       \<and> (scheme_of_path path = [] \<or>
           (\<exists>run rest. run \<noteq> [] \<and> (\<forall>ch \<in> set run. is_scheme_char ch) \<and>
              path = run @ ''://'' @ rest \<and> scheme_of_path path = run @ ''://''))
       \<and> (\<forall>run rest. run \<noteq> [] \<and> (\<forall>ch \<in> set run. is_scheme_char ch) \<and>
              path = run @ ''://'' @ rest \<longrightarrow> scheme_of_path path = run @ ''://'')"
proof (intro conjI)
  from register_all_inv[OF registry_inv_init, of calls] assms(1) obtain reg where
    r: "register_all init_FilesystemRegistry calls = Inr reg"
    and inv: "registry_inv calls reg" by auto
  from inv assms(2,3) have "preferred_filesystem_by_scheme reg (scheme_of_path path) \<noteq> None"
    unfolding registry_inv_def by blast
  then obtain c where c: "preferred_filesystem_by_scheme reg (scheme_of_path path) = Some c"
    by blast
  with inv obtain p where "(c, p) \<in> set calls"
    "scheme_of_path path \<in> set (SUPPORTED_SCHEMES c)"
    "\<forall>(c', p') \<in> set calls. scheme_of_path path \<in> set (SUPPORTED_SCHEMES c') \<longrightarrow> p \<le> p'"
    unfolding registry_inv_def by blast
  moreover from c have "get_filesystem_for_path reg path = Inr c"
    by (simp add: get_filesystem_for_path_def get_filesystem_for_scheme_def)
  ultimately show "\<exists>reg c p. register_all init_FilesystemRegistry calls = Inr reg
           \<and> get_filesystem_for_path reg path = Inr c
           \<and> (c, p) \<in> set calls
           \<and> scheme_of_path path \<in> set (SUPPORTED_SCHEMES c)
           \<and> (\<forall>(c', p') \<in> set calls.
                 scheme_of_path path \<in> set (SUPPORTED_SCHEMES c') \<longrightarrow> p \<le> p')"
    using r by blast
  show "scheme_of_path path = [] \<or>
           (\<exists>run rest. run \<noteq> [] \<and> (\<forall>ch \<in> set run. is_scheme_char ch) \<and>
              path = run @ ''://'' @ rest \<and> scheme_of_path path = run @ ''://'')"
    by (rule scheme_of_path_cases)
  show "\<forall>run rest. run \<noteq> [] \<and> (\<forall>ch \<in> set run. is_scheme_char ch) \<and>
              path = run @ ''://'' @ rest \<longrightarrow> scheme_of_path path = run @ ''://''"
    using scheme_of_path_match by blast
qed

text \<open>Four classes, three of them declaring \<^verbatim>\<open>gs://\<close> and two the local scheme.\<close>

theorem preferred_has_lowest_priority_witness:
  "lookup_after example_calls ''gs://bucket/x'' = Inr gcs_filesystem
   \<and> lookup_after example_calls ''/tmp/x'' = Inr local_filesystem"
proof -
  have con: "consistent_priorities example_calls"
    by (auto simp: consistent_priorities_def example_calls_def gcs_filesystem_def
        local_filesystem_def tf_filesystem_def alt_filesystem_def)
  have gs: "scheme_of_path ''gs://bucket/x'' = ''gs://''"
    by (simp add: scheme_of_path_def match_scheme_def is_scheme_char_def Let_def)
  have loc: "scheme_of_path ''/tmp/x'' = []"
    by (simp add: scheme_of_path_def match_scheme_def is_scheme_char_def Let_def)
  have m1: "(gcs_filesystem, 10) \<in> set example_calls" by (simp add: example_calls_def)
  have s1: "scheme_of_path ''gs://bucket/x'' \<in> set (SUPPORTED_SCHEMES gcs_filesystem)"
    by (simp add: gs gcs_filesystem_def)
  have m2: "(local_filesystem, 5) \<in> set example_calls" by (simp add: example_calls_def)
  have s2: "scheme_of_path ''/tmp/x'' \<in> set (SUPPORTED_SCHEMES local_filesystem)"
    by (simp add: loc local_filesystem_def)
  from preferred_has_lowest_priority[OF con m1 s1] obtain reg c p where
    r: "register_all init_FilesystemRegistry example_calls = Inr reg"
    and g: "get_filesystem_for_path reg ''gs://bucket/x'' = Inr c"
    and mem: "(c, p) \<in> set example_calls" and sup: "''gs://'' \<in> set (SUPPORTED_SCHEMES c)"
    and low: "\<forall>(c', p') \<in> set example_calls. ''gs://'' \<in> set (SUPPORTED_SCHEMES c') \<longrightarrow> p \<le> p'"
    unfolding gs by blast
  from low have "p \<le> 10" by (simp add: example_calls_def gcs_filesystem_def)
  with mem sup have "c = gcs_filesystem"
    by (auto simp: example_calls_def gcs_filesystem_def local_filesystem_def tf_filesystem_def
        alt_filesystem_def)
  with r g have one: "lookup_after example_calls ''gs://bucket/x'' = Inr gcs_filesystem"
    by (simp add: lookup_after_def)
  from preferred_has_lowest_priority[OF con m2 s2] obtain reg' c' p' where
    r': "register_all init_FilesystemRegistry example_calls = Inr reg'"
    and g': "get_filesystem_for_path reg' ''/tmp/x'' = Inr c'"
    and mem': "(c', p') \<in> set example_calls" and sup': "[] \<in> set (SUPPORTED_SCHEMES c')"
    and low': "\<forall>(c'', p'') \<in> set example_calls. [] \<in> set (SUPPORTED_SCHEMES c'') \<longrightarrow> p' \<le> p''"
    unfolding loc by blast
  from low' have "p' \<le> 5" by (simp add: example_calls_def local_filesystem_def)
  with mem' sup' have "c' = local_filesystem"
    by (auto simp: example_calls_def gcs_filesystem_def local_filesystem_def tf_filesystem_def
        alt_filesystem_def)
  with r' g' have "lookup_after example_calls ''/tmp/x'' = Inr local_filesystem"
    by (simp add: lookup_after_def)
  with one show ?thesis by simp
qed

end
